theory Spec2Isabelle
  imports Main "HOL-Library.Word"
begin

section \<open>The generation abstraction of HotSpot's generational heap (memory/generation.cpp)\<close>

text \<open>
  A shallow embedding of \<^verbatim>\<open>Generation\<close> as defined in
  \<^verbatim>\<open>hotspot/src/share/vm/memory/generation.cpp\<close>. Addresses (\<^verbatim>\<open>HeapWord*\<close>,
  \<^verbatim>\<open>void*\<close>, \<^verbatim>\<open>oop\<close>) and \<^verbatim>\<open>size_t\<close> are 64-bit machine words (an LP64 platform);
  an address counts bytes, a heap word is 8 bytes, and the null pointer is the word 0.
  A pointer to a \<^verbatim>\<open>Space\<close> object is a natural number naming the object; a possibly
  null \<^verbatim>\<open>Space*\<close> is an \<open>option\<close>.
\<close>

subsection \<open>Data model\<close>

type_synonym addr = "64 word"
type_synonym size_t = "64 word"
type_synonym space_ptr = nat
type_synonym cp_ptr = nat

definition NULL :: addr where
  "NULL = 0"

definition HeapWordSize :: "64 word" where
  "HeapWordSize = 8"

text \<open>
  Build and runtime configuration read by the file: whether \<^verbatim>\<open>assert\<close> is compiled in
  (\<^verbatim>\<open>ASSERT\<close>), whether the build is a product build (\<^verbatim>\<open>PRODUCT\<close>, which removes the
  \<^verbatim>\<open>#ifndef PRODUCT\<close> blocks), and the flags \<^verbatim>\<open>ZapUnusedHeapArea\<close>, \<^verbatim>\<open>PrintGC\<close>
  and \<^verbatim>\<open>Verbose\<close>.
\<close>

record config =
  ASSERT :: bool
  PRODUCT :: bool
  ZapUnusedHeapArea :: bool
  PrintGC :: bool
  Verbose :: bool

text \<open>The ways the VM is brought down: a failed assertion, \<^verbatim>\<open>ShouldNotCallThis()\<close>,
  and \<^verbatim>\<open>vm_exit_during_initialization\<close>.\<close>

datatype fatal =
    Assert_failed string
  | Should_not_call_this
  | Vm_exit_during_initialization string

text \<open>
  Modelled from the spec: \<^verbatim>\<open>MemRegion\<close> (memory/memRegion.hpp is not among the sources) is
  the address range \<open>[low, high)\<close> of section 3 of the specification; its size in bytes
  is \<open>high - low\<close>, and it is empty when it holds no word.
\<close>

record mem_region =
  mr_start :: addr
  mr_end :: addr

definition MemRegion :: "addr \<Rightarrow> addr \<Rightarrow> mem_region" where
  "MemRegion lo hi = \<lparr>mr_start = lo, mr_end = hi\<rparr>"

definition byte_size :: "mem_region \<Rightarrow> size_t" where
  "byte_size r = mr_end r - mr_start r"

definition is_empty :: "mem_region \<Rightarrow> bool" where
  "is_empty r \<longleftrightarrow> byte_size r = 0"

text \<open>
  \<^verbatim>\<open>VirtualSpace\<close> (runtime/virtualspace.hpp, a collaborator): the boundaries of the
  reserved area, \<open>[low_boundary, high_boundary)\<close>, and of its committed part,
  \<open>[low, high)\<close>.
\<close>

record virtual_space =
  low_boundary :: addr
  high_boundary :: addr
  low :: addr
  high :: addr

text \<open>
  A \<^verbatim>\<open>Generation\<close> object. The fields \<open>level\<close>, \<open>ref_processor\<close>, \<open>reserved\<close> and
  \<open>virtual_space\<close> are the C++ members \<^verbatim>\<open>_level\<close>, \<^verbatim>\<open>_ref_processor\<close> (null, or a
  reference processor spanning a region), \<^verbatim>\<open>_reserved\<close> and \<^verbatim>\<open>_virtual_space\<close>.
  The remaining fields stand for what the pure virtual member functions of the concrete
  generation answer at the moment of the call: \<^verbatim>\<open>contiguous_available()\<close>, the spaces
  that \<^verbatim>\<open>space_iterate\<close> enumerates, in its order, and \<^verbatim>\<open>first_compaction_space()\<close>.
\<close>

record generation =
  level :: int
  ref_processor :: "mem_region option"
  reserved :: mem_region
  virtual_space :: virtual_space
  contiguous_available :: size_t
  spaces :: "space_ptr list"
  first_compaction_space :: "space_ptr option"

text \<open>\<^verbatim>\<open>GenCollectedHeap::heap()\<close>, as far as this file reads it: the pointer
  \<^verbatim>\<open>old_gen()\<close>, which may be null.\<close>

record gen_collected_heap =
  old_gen :: "generation option"

subsection \<open>Cross-generation capacity\<close>

text \<open>\<^verbatim>\<open>Generation::next_gen\<close> (lines 154-161).\<close>

definition next_gen :: "gen_collected_heap \<Rightarrow> generation \<Rightarrow> generation option" where
  "next_gen gch this = (if level this = 0 then old_gen gch else None)"

text \<open>
  The loop of \<^verbatim>\<open>Generation::max_contiguous_available\<close> (lines 166-171), with the loop
  variable \<open>gen\<close> and the running maximum. The loop does not end when \<^verbatim>\<open>old_gen()\<close> is
  itself at level 0, so it is a partial function: \<open>None\<close> is "does not return".
\<close>

partial_function (option) max_contiguous_available_loop ::
  "gen_collected_heap \<Rightarrow> generation option \<Rightarrow> size_t \<Rightarrow> size_t option" where
  "max_contiguous_available_loop gch gen mx =
     (case gen of
        None \<Rightarrow> Some mx
      | Some g \<Rightarrow>
          (let avail = contiguous_available g
           in max_contiguous_available_loop gch (next_gen gch g)
                (if avail > mx then avail else mx)))"

declare max_contiguous_available_loop.simps [code]

text \<open>\<^verbatim>\<open>Generation::max_contiguous_available\<close> (lines 163-173).\<close>

definition max_contiguous_available :: "gen_collected_heap \<Rightarrow> generation \<Rightarrow> size_t option" where
  "max_contiguous_available gch this = max_contiguous_available_loop gch (Some this) 0"

text \<open>A line of the GC log written by \<^verbatim>\<open>promotion_attempt_is_safe\<close>: the verdict, the
  available extent and the requested size.\<close>

datatype gclog = Promo_attempt_line bool size_t size_t

text \<open>\<^verbatim>\<open>Generation::promotion_attempt_is_safe\<close> (lines 175-185): the result and the lines
  printed.\<close>

definition promotion_attempt_is_safe ::
  "config \<Rightarrow> gen_collected_heap \<Rightarrow> generation \<Rightarrow> size_t \<Rightarrow> (bool \<times> gclog list) option" where
  "promotion_attempt_is_safe cfg gch this max_promotion_in_bytes =
     (case max_contiguous_available gch this of
        None \<Rightarrow> None
      | Some available \<Rightarrow>
          (let res = (available \<ge> max_promotion_in_bytes)
           in Some (res,
                if PrintGC cfg \<and> Verbose cfg
                then [Promo_attempt_line res available max_promotion_in_bytes]
                else [])))"

text \<open>The generations reachable from a generation by following \<^verbatim>\<open>next_gen()\<close>.\<close>

inductive_set gens_from :: "gen_collected_heap \<Rightarrow> generation \<Rightarrow> generation set"
  for gch :: gen_collected_heap and this :: generation where
    gens_from_this: "this \<in> gens_from gch this"
  | gens_from_next: "g \<in> gens_from gch this \<Longrightarrow> next_gen gch g = Some g' \<Longrightarrow> g' \<in> gens_from gch this"

code_pred gens_fromp .

text \<open>The heap is well formed when the old generation, if there is one, is terminal: it is
  not at level 0 (section 3 of the specification: the model has exactly two levels).\<close>

definition old_gen_terminal :: "gen_collected_heap \<Rightarrow> bool" where
  "old_gen_terminal gch \<longleftrightarrow> (case old_gen gch of None \<Rightarrow> True | Some og \<Rightarrow> level og \<noteq> 0)"

subsection \<open>Construction and the reference processor\<close>

text \<open>
  The constructor \<^verbatim>\<open>Generation::Generation\<close> (lines 47-62). \<^verbatim>\<open>VirtualSpace::initialize\<close>
  is a collaborator and a parameter here: it answers \<open>None\<close> when it returns false, and
  the initialised virtual space otherwise. The constructor sets the members of the object
  under construction, \<open>this\<close>; it returns the object together with the regions handed to
  \<^verbatim>\<open>SpaceMangler::mangle_region\<close>.
\<close>

definition Generation ::
  "config \<Rightarrow> ('rs \<Rightarrow> size_t \<Rightarrow> virtual_space option) \<Rightarrow> generation \<Rightarrow>
     'rs \<Rightarrow> size_t \<Rightarrow> int \<Rightarrow> fatal + (generation \<times> mem_region list)" where
  "Generation cfg initialize this rs initial_size lvl =
     (case initialize rs initial_size of
        None \<Rightarrow> Inl (Vm_exit_during_initialization ''Could not reserve enough space for object heap'')
      | Some vs \<Rightarrow>
          Inr (this\<lparr>level := lvl, ref_processor := None, virtual_space := vs,
                    reserved := MemRegion (low_boundary vs) (high_boundary vs)\<rparr>,
               if ZapUnusedHeapArea cfg then [MemRegion (low vs) (high vs)] else []))"

text \<open>\<^verbatim>\<open>Generation::max_capacity\<close> (lines 70-72).\<close>

definition max_capacity :: "generation \<Rightarrow> size_t" where
  "max_capacity this = byte_size (reserved this)"

text \<open>
  \<^verbatim>\<open>Generation::ref_processor_init\<close> (lines 90-97); \<open>new_ok\<close> tells whether
  \<^verbatim>\<open>new ReferenceProcessor\<close> returned an object.
\<close>

definition ref_processor_init :: "config \<Rightarrow> bool \<Rightarrow> generation \<Rightarrow> fatal + generation" where
  "ref_processor_init cfg new_ok this =
     (if ASSERT cfg \<and> ref_processor this \<noteq> None
      then Inl (Assert_failed ''a reference processor already exists'')
      else if ASSERT cfg \<and> is_empty (reserved this)
      then Inl (Assert_failed ''empty generation?'')
      else if \<not> new_ok
      then Inl (Vm_exit_during_initialization ''Could not allocate ReferenceProcessor object'')
      else Inr (this\<lparr>ref_processor := Some (reserved this)\<rparr>))"

subsection \<open>Collaborators, memory and the record of calls\<close>

text \<open>
  The state outside the generation object: the heap memory, one 64-bit word at each
  word address, and the state \<open>ext\<close> of the collaborators (spaces, allocator, heap policy),
  which this file never looks into.
\<close>

record 'x vm =
  mem :: "addr \<Rightarrow> 64 word"
  ext :: 'x

text \<open>The calls this file makes to its collaborators, with their arguments.\<close>

datatype call =
    Call_promotion_should_fail
  | Call_allocate size_t bool
  | Call_aligned_disjoint_words addr addr size_t
  | Call_handle_failed_promotion addr size_t
  | Call_prepare_for_compaction space_ptr cp_ptr
  | Call_adjust_pointers space_ptr
  | Call_compact space_ptr

text \<open>A run: the state, and the calls made so far, oldest first.\<close>

type_synonym 'x run = "'x vm \<times> call list"

text \<open>
  The collaborators are parameters: \<^verbatim>\<open>oop::size()\<close>,
  \<^verbatim>\<open>CollectedHeap::promotion_should_fail()\<close>, the pure virtual
  \<^verbatim>\<open>Generation::allocate\<close>, \<^verbatim>\<open>GenCollectedHeap::handle_failed_promotion\<close>, and of a
  space \<^verbatim>\<open>prepare_for_compaction\<close>, \<^verbatim>\<open>next_compaction_space\<close>, \<^verbatim>\<open>adjust_pointers\<close> and
  \<^verbatim>\<open>compact\<close>. A \<^verbatim>\<open>CompactPoint*\<close> is passed as the pointer it is; the object it
  points to lives in the state.
\<close>

record 'x collab =
  oop_size :: "'x vm \<Rightarrow> addr \<Rightarrow> size_t"
  promotion_should_fail :: "'x vm \<Rightarrow> bool \<times> 'x vm"
  allocate :: "size_t \<Rightarrow> bool \<Rightarrow> 'x vm \<Rightarrow> addr \<times> 'x vm"
  handle_failed_promotion :: "generation \<Rightarrow> addr \<Rightarrow> size_t \<Rightarrow> 'x vm \<Rightarrow> addr \<times> 'x vm"
  sp_prepare_for_compaction :: "space_ptr \<Rightarrow> cp_ptr \<Rightarrow> 'x vm \<Rightarrow> 'x vm"
  next_compaction_space :: "'x vm \<Rightarrow> space_ptr \<Rightarrow> space_ptr option"
  sp_adjust_pointers :: "space_ptr \<Rightarrow> 'x vm \<Rightarrow> 'x vm"
  sp_compact :: "space_ptr \<Rightarrow> 'x vm \<Rightarrow> 'x vm"

text \<open>Calling a collaborator that returns a value, and one that returns nothing: the call
  is recorded and the state is the one the collaborator leaves.\<close>

definition invoke :: "call \<Rightarrow> ('x vm \<Rightarrow> 'a \<times> 'x vm) \<Rightarrow> 'x run \<Rightarrow> 'a \<times> 'x run" where
  "invoke cl f r = (fst (f (fst r)), (snd (f (fst r)), snd r @ [cl]))"

definition invoke_void :: "call \<Rightarrow> ('x vm \<Rightarrow> 'x vm) \<Rightarrow> 'x run \<Rightarrow> 'x run" where
  "invoke_void cl f r = (f (fst r), snd r @ [cl])"

text \<open>
  Modelled from the spec: \<^verbatim>\<open>Copy::aligned_disjoint_words(from, to, count)\<close>
  (utilities/copy.hpp is not among the sources) is the "word-aligned, non-overlapping
  copy" of section 4.3: \<open>count\<close> heap words are copied from the words at \<open>src\<close> to the
  words at \<open>dst\<close>, every word read from the memory as it was before the copy.
\<close>

definition aligned_disjoint_words ::
  "addr \<Rightarrow> addr \<Rightarrow> size_t \<Rightarrow> (addr \<Rightarrow> 64 word) \<Rightarrow> (addr \<Rightarrow> 64 word)" where
  "aligned_disjoint_words src dst count m =
     fold (\<lambda>i m'. m'(dst + HeapWordSize * of_nat i := m (src + HeapWordSize * of_nat i)))
       [0..<unat count] m"

definition Copy_aligned_disjoint_words :: "addr \<Rightarrow> addr \<Rightarrow> size_t \<Rightarrow> 'x run \<Rightarrow> 'x run" where
  "Copy_aligned_disjoint_words src dst count =
     invoke_void (Call_aligned_disjoint_words src dst count)
       (\<lambda>v. v\<lparr>mem := aligned_disjoint_words src dst count (mem v)\<rparr>)"

text \<open>
  Modelled from the spec: the macro \<^verbatim>\<open>ShouldNotCallThis()\<close> (utilities/debug.hpp is not
  among the sources) "fails fatally and immediately" (sections 4.3 and 7).
\<close>

definition ShouldNotCallThis :: "fatal + unit" where
  "ShouldNotCallThis = Inl Should_not_call_this"

subsection \<open>Promotion\<close>

text \<open>
  \<^verbatim>\<open>Generation::promote\<close> (lines 188-205). The result is the returned \<^verbatim>\<open>oop\<close> and the run
  after the call, or the fatal error that stopped the VM.
\<close>

definition promote ::
  "config \<Rightarrow> 'x collab \<Rightarrow> generation \<Rightarrow> addr \<Rightarrow> size_t \<Rightarrow> 'x run \<Rightarrow> fatal + (addr \<times> 'x run)" where
  "promote cfg c this obj obj_size r =
     (if ASSERT cfg \<and> obj_size \<noteq> oop_size c (fst r) obj
      then Inl (Assert_failed ''bad obj_size passed in'')
      else
        (let (should_fail, r1) =
               (if \<not> PRODUCT cfg
                then invoke Call_promotion_should_fail (promotion_should_fail c) r
                else (False, r))
         in if should_fail then Inr (NULL, r1)
            else
              (let (result, r2) = invoke (Call_allocate obj_size False) (allocate c obj_size False) r1
               in if result \<noteq> NULL
                  then Inr (result, Copy_aligned_disjoint_words obj result obj_size r2)
                  else Inr (invoke (Call_handle_failed_promotion obj obj_size)
                              (handle_failed_promotion c this obj obj_size) r2))))"

text \<open>\<^verbatim>\<open>Generation::par_promote\<close> (lines 207-212).\<close>

definition par_promote ::
  "int \<Rightarrow> addr \<Rightarrow> addr \<Rightarrow> size_t \<Rightarrow> 'x run \<Rightarrow> fatal + (addr \<times> 'x run)" where
  "par_promote thread_num obj m word_sz r =
     (case ShouldNotCallThis of
        Inl e \<Rightarrow> Inl e
      | Inr _ \<Rightarrow> Inr (NULL, r))"

subsection \<open>Iteration over the spaces\<close>

text \<open>
  What a \<^verbatim>\<open>Space\<close> answers to the queries this file sends it (\<^verbatim>\<open>is_in_reserved\<close>,
  \<^verbatim>\<open>is_in\<close>, \<^verbatim>\<open>block_start\<close>, \<^verbatim>\<open>block_size\<close>, \<^verbatim>\<open>block_is_obj\<close>), and the
  store that maps a space pointer to its object.
\<close>

record space =
  sp_is_in_reserved :: "addr \<Rightarrow> bool"
  sp_is_in :: "addr \<Rightarrow> bool"
  sp_block_start :: "addr \<Rightarrow> addr"
  sp_block_size :: "addr \<Rightarrow> size_t"
  sp_block_is_obj :: "addr \<Rightarrow> bool"

type_synonym space_store = "space_ptr \<Rightarrow> space"

text \<open>
  Modelled from the spec: \<^verbatim>\<open>Generation::space_iterate(blk, usedOnly)\<close> is pure virtual and
  its implementations are not among the sources; by section 4.2 it enumerates "the
  generation's owned spaces in a fixed, deterministic order" and applies the visitor's
  \<^verbatim>\<open>do_space\<close> to each. The visitor \<open>blk\<close> is the state that \<open>do_space\<close> updates. The flag
  \<open>usedOnly\<close> is passed as the callers pass it; the enumeration does not depend on it.
\<close>

definition space_iterate :: "generation \<Rightarrow> (space_ptr \<Rightarrow> 'b \<Rightarrow> 'b) \<Rightarrow> bool \<Rightarrow> 'b \<Rightarrow> 'b" where
  "space_iterate this do_space usedOnly blk = fold do_space (spaces this) blk"

text \<open>\<^verbatim>\<open>GenerationIsInReservedClosure\<close> (lines 124-134) and
  \<^verbatim>\<open>Generation::space_containing\<close> (lines 214-219).\<close>

record GenerationIsInReservedClosure =
  iir_p :: addr
  iir_sp :: "space_ptr option"

definition GenerationIsInReservedClosure :: "addr \<Rightarrow> GenerationIsInReservedClosure" where
  "GenerationIsInReservedClosure p = \<lparr>iir_p = p, iir_sp = None\<rparr>"

definition GenerationIsInReservedClosure_do_space ::
  "space_store \<Rightarrow> space_ptr \<Rightarrow> GenerationIsInReservedClosure \<Rightarrow> GenerationIsInReservedClosure" where
  "GenerationIsInReservedClosure_do_space S s blk =
     (if iir_sp blk = None
      then (if sp_is_in_reserved (S s) (iir_p blk) then blk\<lparr>iir_sp := Some s\<rparr> else blk)
      else blk)"

definition space_containing :: "space_store \<Rightarrow> generation \<Rightarrow> addr \<Rightarrow> space_ptr option" where
  "space_containing S this p =
     iir_sp (space_iterate this (GenerationIsInReservedClosure_do_space S) False
               (GenerationIsInReservedClosure p))"

text \<open>\<^verbatim>\<open>GenerationIsInClosure\<close> (lines 136-146) and \<^verbatim>\<open>Generation::is_in\<close>
  (lines 148-152).\<close>

record GenerationIsInClosure =
  ii_p :: addr
  ii_sp :: "space_ptr option"

definition GenerationIsInClosure :: "addr \<Rightarrow> GenerationIsInClosure" where
  "GenerationIsInClosure p = \<lparr>ii_p = p, ii_sp = None\<rparr>"

definition GenerationIsInClosure_do_space ::
  "space_store \<Rightarrow> space_ptr \<Rightarrow> GenerationIsInClosure \<Rightarrow> GenerationIsInClosure" where
  "GenerationIsInClosure_do_space S s blk =
     (if ii_sp blk = None
      then (if sp_is_in (S s) (ii_p blk) then blk\<lparr>ii_sp := Some s\<rparr> else blk)
      else blk)"

definition is_in :: "space_store \<Rightarrow> generation \<Rightarrow> addr \<Rightarrow> bool" where
  "is_in S this p =
     (ii_sp (space_iterate this (GenerationIsInClosure_do_space S) False
               (GenerationIsInClosure p)) \<noteq> None)"

text \<open>\<^verbatim>\<open>GenerationBlockStartClosure\<close> (lines 224-234) and \<^verbatim>\<open>Generation::block_start\<close>
  (lines 236-241).\<close>

record GenerationBlockStartClosure =
  bs_p :: addr
  bs_start :: addr

definition GenerationBlockStartClosure :: "addr \<Rightarrow> GenerationBlockStartClosure" where
  "GenerationBlockStartClosure p = \<lparr>bs_p = p, bs_start = NULL\<rparr>"

definition GenerationBlockStartClosure_do_space ::
  "space_store \<Rightarrow> space_ptr \<Rightarrow> GenerationBlockStartClosure \<Rightarrow> GenerationBlockStartClosure" where
  "GenerationBlockStartClosure_do_space S s blk =
     (if bs_start blk = NULL \<and> sp_is_in_reserved (S s) (bs_p blk)
      then blk\<lparr>bs_start := sp_block_start (S s) (bs_p blk)\<rparr>
      else blk)"

definition block_start :: "space_store \<Rightarrow> generation \<Rightarrow> addr \<Rightarrow> addr" where
  "block_start S this p =
     bs_start (space_iterate this (GenerationBlockStartClosure_do_space S) False
                 (GenerationBlockStartClosure p))"

text \<open>\<^verbatim>\<open>GenerationBlockSizeClosure\<close> (lines 243-253) and \<^verbatim>\<open>Generation::block_size\<close>
  (lines 255-261), whose assertion stops a build with assertions.\<close>

record GenerationBlockSizeClosure =
  bz_p :: addr
  bz_size :: size_t

definition GenerationBlockSizeClosure :: "addr \<Rightarrow> GenerationBlockSizeClosure" where
  "GenerationBlockSizeClosure p = \<lparr>bz_p = p, bz_size = 0\<rparr>"

definition GenerationBlockSizeClosure_do_space ::
  "space_store \<Rightarrow> space_ptr \<Rightarrow> GenerationBlockSizeClosure \<Rightarrow> GenerationBlockSizeClosure" where
  "GenerationBlockSizeClosure_do_space S s blk =
     (if bz_size blk = 0 \<and> sp_is_in_reserved (S s) (bz_p blk)
      then blk\<lparr>bz_size := sp_block_size (S s) (bz_p blk)\<rparr>
      else blk)"

definition block_size :: "config \<Rightarrow> space_store \<Rightarrow> generation \<Rightarrow> addr \<Rightarrow> fatal + size_t" where
  "block_size cfg S this p =
     (let blk = space_iterate this (GenerationBlockSizeClosure_do_space S) False
                  (GenerationBlockSizeClosure p)
      in if ASSERT cfg \<and> \<not> (bz_size blk > 0)
         then Inl (Assert_failed ''seems reasonable'')
         else Inr (bz_size blk))"

text \<open>\<^verbatim>\<open>GenerationBlockIsObjClosure\<close> (lines 263-273) and \<^verbatim>\<open>Generation::block_is_obj\<close>
  (lines 275-280).\<close>

record GenerationBlockIsObjClosure =
  bo_p :: addr
  bo_is_obj :: bool

definition GenerationBlockIsObjClosure :: "addr \<Rightarrow> GenerationBlockIsObjClosure" where
  "GenerationBlockIsObjClosure p = \<lparr>bo_p = p, bo_is_obj = False\<rparr>"

definition GenerationBlockIsObjClosure_do_space ::
  "space_store \<Rightarrow> space_ptr \<Rightarrow> GenerationBlockIsObjClosure \<Rightarrow> GenerationBlockIsObjClosure" where
  "GenerationBlockIsObjClosure_do_space S s blk =
     (if \<not> bo_is_obj blk \<and> sp_is_in_reserved (S s) (bo_p blk)
      then blk\<lparr>bo_is_obj := (bo_is_obj blk \<or> sp_block_is_obj (S s) (bo_p blk))\<rparr>
      else blk)"

definition block_is_obj :: "space_store \<Rightarrow> generation \<Rightarrow> addr \<Rightarrow> bool" where
  "block_is_obj S this p =
     bo_is_obj (space_iterate this (GenerationBlockIsObjClosure_do_space S) False
                  (GenerationBlockIsObjClosure p))"

text \<open>The reserved extents of the owned spaces do not overlap (section 3 of the
  specification): an address lies in the reserved extent of at most one of them.\<close>

definition spaces_disjoint :: "space_store \<Rightarrow> generation \<Rightarrow> bool" where
  "spaces_disjoint S this \<longleftrightarrow>
     (\<forall>s\<in>set (spaces this). \<forall>s'\<in>set (spaces this). \<forall>q.
        sp_is_in_reserved (S s) q \<and> sp_is_in_reserved (S s') q \<longrightarrow> s = s')"

subsection \<open>Compaction\<close>

text \<open>
  The loop of \<^verbatim>\<open>Generation::prepare_for_compaction\<close> (lines 336-339), with the loop
  variable \<open>space\<close>. The successor is read from the space after its
  \<^verbatim>\<open>prepare_for_compaction\<close> has run. The loop does not end on a cyclic chain, so it is a
  partial function.
\<close>

partial_function (option) prepare_for_compaction_loop ::
  "'x collab \<Rightarrow> cp_ptr \<Rightarrow> space_ptr option \<Rightarrow> 'x run \<Rightarrow> 'x run option" where
  "prepare_for_compaction_loop c cp space r =
     (case space of
        None \<Rightarrow> Some r
      | Some s \<Rightarrow>
          (let r' = invoke_void (Call_prepare_for_compaction s cp)
                      (sp_prepare_for_compaction c s cp) r
           in prepare_for_compaction_loop c cp (next_compaction_space c (fst r') s) r'))"

declare prepare_for_compaction_loop.simps [code]

text \<open>\<^verbatim>\<open>Generation::prepare_for_compaction\<close> (lines 333-340).\<close>

definition prepare_for_compaction ::
  "'x collab \<Rightarrow> generation \<Rightarrow> cp_ptr \<Rightarrow> 'x run \<Rightarrow> 'x run option" where
  "prepare_for_compaction c this cp r =
     prepare_for_compaction_loop c cp (first_compaction_space this) r"

text \<open>\<^verbatim>\<open>AdjustPointersClosure\<close> (lines 342-347) and \<^verbatim>\<open>Generation::adjust_pointers\<close>
  (lines 349-354).\<close>

definition AdjustPointersClosure_do_space :: "'x collab \<Rightarrow> space_ptr \<Rightarrow> 'x run \<Rightarrow> 'x run" where
  "AdjustPointersClosure_do_space c sp r =
     invoke_void (Call_adjust_pointers sp) (sp_adjust_pointers c sp) r"

definition adjust_pointers :: "'x collab \<Rightarrow> generation \<Rightarrow> 'x run \<Rightarrow> 'x run" where
  "adjust_pointers c this r = space_iterate this (AdjustPointersClosure_do_space c) True r"

text \<open>The loop of \<^verbatim>\<open>Generation::compact\<close> (lines 358-361) and the function
  (lines 356-362).\<close>

partial_function (option) compact_loop ::
  "'x collab \<Rightarrow> space_ptr option \<Rightarrow> 'x run \<Rightarrow> 'x run option" where
  "compact_loop c sp r =
     (case sp of
        None \<Rightarrow> Some r
      | Some s \<Rightarrow>
          (let r' = invoke_void (Call_compact s) (sp_compact c s) r
           in compact_loop c (next_compaction_space c (fst r') s) r'))"

declare compact_loop.simps [code]

definition compact :: "'x collab \<Rightarrow> generation \<Rightarrow> 'x run \<Rightarrow> 'x run option" where
  "compact c this r = compact_loop c (first_compaction_space this) r"

text \<open>
  The chain of compactible spaces in a state: the spaces from \<open>first\<close> on, each followed by
  its \<^verbatim>\<open>next_compaction_space()\<close>, up to the null link.
\<close>

inductive compaction_chain :: "(space_ptr \<Rightarrow> space_ptr option) \<Rightarrow> space_ptr option \<Rightarrow> space_ptr list \<Rightarrow> bool"
  for nxt :: "space_ptr \<Rightarrow> space_ptr option" where
    chain_null: "compaction_chain nxt None []"
  | chain_link: "compaction_chain nxt (nxt s) ss \<Longrightarrow> compaction_chain nxt (Some s) (s # ss)"

code_pred compaction_chain .

text \<open>A collaborator's operation on a space keeps the successor links of the chain.\<close>

definition keeps_links :: "'x collab \<Rightarrow> ('x vm \<Rightarrow> 'x vm) \<Rightarrow> bool" where
  "keeps_links c f \<longleftrightarrow> (\<forall>v. next_compaction_space c (f v) = next_compaction_space c v)"

subsection \<open>The lifetime of a generation\<close>

text \<open>
  What happens to a generation after its construction: the operations of this file that
  change the object or the state around it, and what its collaborators do to it, namely
  the virtual space growing or shrinking (any new value of \<^verbatim>\<open>_virtual_space\<close>) and the
  concrete generation changing what its virtual member functions answer.
\<close>

datatype gen_op =
    Op_ref_processor_init bool
  | Op_promote addr size_t
  | Op_par_promote int addr addr size_t
  | Op_prepare_for_compaction cp_ptr
  | Op_adjust_pointers
  | Op_compact
  | Op_virtual_space virtual_space
  | Op_concrete size_t "space_ptr list" "space_ptr option"

record 'x gen_state =
  gs_this :: generation
  gs_run :: "'x run"

text \<open>One operation: \<open>None\<close> when it does not return, a fatal error when it stops the VM,
  and the next state otherwise.\<close>

definition gen_step ::
  "config \<Rightarrow> 'x collab \<Rightarrow> gen_op \<Rightarrow> 'x gen_state \<Rightarrow> (fatal + 'x gen_state) option" where
  "gen_step cfg c op s =
     (case op of
        Op_ref_processor_init new_ok \<Rightarrow>
          Some (map_sum id (\<lambda>g. s\<lparr>gs_this := g\<rparr>) (ref_processor_init cfg new_ok (gs_this s)))
      | Op_promote obj obj_size \<Rightarrow>
          Some (map_sum id (\<lambda>res. s\<lparr>gs_run := snd res\<rparr>)
                  (promote cfg c (gs_this s) obj obj_size (gs_run s)))
      | Op_par_promote thread_num obj m word_sz \<Rightarrow>
          Some (map_sum id (\<lambda>res. s\<lparr>gs_run := snd res\<rparr>)
                  (par_promote thread_num obj m word_sz (gs_run s)))
      | Op_prepare_for_compaction cp \<Rightarrow>
          map_option (\<lambda>r. Inr (s\<lparr>gs_run := r\<rparr>))
            (prepare_for_compaction c (gs_this s) cp (gs_run s))
      | Op_adjust_pointers \<Rightarrow>
          Some (Inr (s\<lparr>gs_run := adjust_pointers c (gs_this s) (gs_run s)\<rparr>))
      | Op_compact \<Rightarrow>
          map_option (\<lambda>r. Inr (s\<lparr>gs_run := r\<rparr>)) (compact c (gs_this s) (gs_run s))
      | Op_virtual_space vs \<Rightarrow>
          Some (Inr (s\<lparr>gs_this := (gs_this s)\<lparr>virtual_space := vs\<rparr>\<rparr>))
      | Op_concrete avail sps first \<Rightarrow>
          Some (Inr (s\<lparr>gs_this := (gs_this s)\<lparr>contiguous_available := avail, spaces := sps,
                                               first_compaction_space := first\<rparr>\<rparr>)))"

fun gen_run ::
  "config \<Rightarrow> 'x collab \<Rightarrow> gen_op list \<Rightarrow> 'x gen_state \<Rightarrow> (fatal + 'x gen_state) option" where
  "gen_run cfg c [] s = Some (Inr s)"
| "gen_run cfg c (op # ops) s =
     (case gen_step cfg c op s of
        None \<Rightarrow> None
      | Some (Inl e) \<Rightarrow> Some (Inl e)
      | Some (Inr s') \<Rightarrow> gen_run cfg c ops s')"

subsection \<open>Example configurations\<close>

text \<open>A debug build.\<close>

definition debug_build :: config where
  "debug_build = \<lparr>ASSERT = True, PRODUCT = False, ZapUnusedHeapArea = True,
                   PrintGC = True, Verbose = True\<rparr>"

text \<open>A young generation of 1 MiB with three spaces and an old generation of 4 MiB with
  one, as the heap has them.\<close>

definition young_vs :: virtual_space where
  "young_vs = \<lparr>low_boundary = 0x100000, high_boundary = 0x200000, low = 0x100000, high = 0x140000\<rparr>"

definition young_gen :: generation where
  "young_gen = \<lparr>level = 0, ref_processor = None, reserved = MemRegion 0x100000 0x200000,
                 virtual_space = young_vs, contiguous_available = 512,
                 spaces = [1, 2, 3], first_compaction_space = Some 1\<rparr>"

definition tenured_gen :: generation where
  "tenured_gen = \<lparr>level = 1, ref_processor = None, reserved = MemRegion 0x400000 0x800000,
                   virtual_space = \<lparr>low_boundary = 0x400000, high_boundary = 0x800000,
                                    low = 0x400000, high = 0x500000\<rparr>,
                   contiguous_available = 4096,
                   spaces = [4], first_compaction_space = Some 4\<rparr>"

definition two_gen_heap :: gen_collected_heap where
  "two_gen_heap = \<lparr>old_gen = Some tenured_gen\<rparr>"

text \<open>
  Collaborators of the young generation for the examples: every object is two words long,
  the debug hook does not fire, allocation bumps a top pointer kept in \<open>ext\<close> up to the
  end \<open>0x140000\<close> of the committed part, and the heap's handler for a failed promotion finds
  room at \<open>0x400000\<close> in the old generation. Spaces 1 and 3 are linked into the compaction
  chain; preparing a space stores at the compaction point the number of the space, and
  adjusting or compacting a space leaves the memory as it is.
\<close>

definition bump_collab :: "addr collab" where
  "bump_collab =
     \<lparr>oop_size = (\<lambda>v obj. 2),
      promotion_should_fail = (\<lambda>v. (False, v)),
      allocate = (\<lambda>sz is_tlab v.
         if unat (ext v) + 8 * unat sz \<le> 0x140000
         then (ext v, v\<lparr>ext := ext v + 8 * sz\<rparr>)
         else (NULL, v)),
      handle_failed_promotion = (\<lambda>gen obj sz v. (0x400000, v)),
      sp_prepare_for_compaction = (\<lambda>s cp v. v\<lparr>mem := (mem v)(of_nat cp := of_nat s)\<rparr>),
      next_compaction_space = (\<lambda>v s. if s = 1 then Some 3 else None),
      sp_adjust_pointers = (\<lambda>s v. v),
      sp_compact = (\<lambda>s v. v)\<rparr>"

text \<open>The same collaborators with the debug hook firing.\<close>

definition hook_collab :: "addr collab" where
  "hook_collab = bump_collab\<lparr>promotion_should_fail := (\<lambda>v. (True, v))\<rparr>"

text \<open>A state with a two-word object at \<open>0x100000\<close> and the top pointer at \<open>0x120000\<close>,
  and one with the young generation full.\<close>

definition object_mem :: "addr \<Rightarrow> 64 word" where
  "object_mem = (\<lambda>a. 0)(0x100000 := 0xCAFE, 0x100008 := 0xBABE)"

definition roomy_vm :: "addr vm" where
  "roomy_vm = \<lparr>mem = object_mem, ext = 0x120000\<rparr>"

definition full_vm :: "addr vm" where
  "full_vm = \<lparr>mem = object_mem, ext = 0x140000\<rparr>"

text \<open>
  A space that spans \<open>[lo, hi)\<close> and is laid out in blocks of two words, each an object:
  the block of an address starts at the address rounded down to 16 bytes from \<open>lo\<close>.
\<close>

definition two_word_blocks :: "addr \<Rightarrow> addr \<Rightarrow> space" where
  "two_word_blocks lo hi =
     \<lparr>sp_is_in_reserved = (\<lambda>a. lo \<le> a \<and> a < hi),
      sp_is_in = (\<lambda>a. lo \<le> a \<and> a < hi),
      sp_block_start = (\<lambda>a. a - (a - lo) mod 16),
      sp_block_size = (\<lambda>a. 2),
      sp_block_is_obj = (\<lambda>a. True)\<rparr>"

text \<open>The three spaces of the young generation, one after the other.\<close>

definition young_spaces :: space_store where
  "young_spaces s =
     (if s = 1 then two_word_blocks 0x100000 0x120000
      else if s = 2 then two_word_blocks 0x120000 0x130000
      else two_word_blocks 0x130000 0x140000)"

text \<open>A virtual space collaborator that reserves the range it is given, a pair of
  boundaries, and commits the initial size from its low end.\<close>

definition reserve_range :: "addr \<times> addr \<Rightarrow> size_t \<Rightarrow> virtual_space option" where
  "reserve_range rs initial_size =
     (if unat (fst rs) + unat initial_size \<le> unat (snd rs)
      then Some \<lparr>low_boundary = fst rs, high_boundary = snd rs,
                 low = fst rs, high = fst rs + initial_size\<rparr>
      else None)"

text \<open>A life of the young generation: the reference processor is set up, an object is
  promoted, the three passes of a compaction run, the virtual space grows and the
  concrete generation reports new answers.\<close>

definition young_life :: "gen_op list" where
  "young_life =
     [Op_ref_processor_init True,
      Op_promote 0x100000 2,
      Op_prepare_for_compaction 0x200,
      Op_adjust_pointers,
      Op_compact,
      Op_virtual_space \<lparr>low_boundary = 0x100000, high_boundary = 0x200000,
                        low = 0x100000, high = 0x180000\<rparr>,
      Op_concrete 1024 [1, 2, 3] (Some 1)]"

section \<open>Properties\<close>

subsection \<open>Cross-generation capacity\<close>

lemma loop_null: "max_contiguous_available_loop gch None mx = Some mx"
  by (subst max_contiguous_available_loop.simps) simp

lemma running_max: "(if (a::size_t) > mx then a else mx) = max mx a"
  by (auto simp: max_def)

lemma max_zero_word: "max (0::size_t) a = a"
  by (simp add: max_def)

lemma loop_gen:
  "max_contiguous_available_loop gch (Some g) mx =
     max_contiguous_available_loop gch (next_gen gch g) (max mx (contiguous_available g))"
  by (subst max_contiguous_available_loop.simps) (simp add: Let_def running_max)

lemma loop_terminal:
  "level g \<noteq> 0 \<Longrightarrow>
     max_contiguous_available_loop gch (Some g) mx = Some (max mx (contiguous_available g))"
  by (simp add: loop_gen next_gen_def loop_null)

text \<open>On a well-formed heap the walk returns: the extent of a terminal generation, and
  for a generation at level 0 the larger of its own extent and the old generation's.\<close>

lemma max_contiguous_available_value:
  assumes "old_gen_terminal gch"
  shows "max_contiguous_available gch this =
     Some (if level this = 0
           then (case old_gen gch of
                   None \<Rightarrow> contiguous_available this
                 | Some og \<Rightarrow> max (contiguous_available this) (contiguous_available og))
           else contiguous_available this)"
proof (cases "level this = 0")
  case False
  then show ?thesis
    by (simp add: max_contiguous_available_def loop_terminal max_zero_word)
next
  case True
  show ?thesis
  proof (cases "old_gen gch")
    case None
    with True show ?thesis
      by (simp add: max_contiguous_available_def loop_gen loop_null next_gen_def max_zero_word)
  next
    case (Some og)
    with assms have "level og \<noteq> 0"
      by (simp add: old_gen_terminal_def)
    with True Some show ?thesis
      by (simp add: max_contiguous_available_def loop_gen [of gch this] next_gen_def
          loop_terminal max_zero_word)
  qed
qed

text \<open>When the old generation is itself at level 0 the walk never leaves it.\<close>

lemma loop_never_returns:
  assumes "old_gen gch = Some og" and "level og = 0"
  shows "max_contiguous_available_loop gch (Some og) mx = None"
proof -
  have "\<forall>mx. max_contiguous_available_loop gch (Some og) mx = None"
  proof (induction rule: max_contiguous_available_loop.fixp_induct)
    case 1
    show ?case
      by (rule ccpo.admissibleI) (auto simp: fun_lub_def flat_lub_def)
  next
    case 2
    show ?case by simp
  next
    case (3 f)
    then show ?case
      using assms by (simp add: next_gen_def Let_def)
  qed
  then show ?thesis by simp
qed

lemma gens_from_eq:
  assumes "old_gen_terminal gch"
  shows "gens_from gch this =
     (if level this = 0 then insert this (set_option (old_gen gch)) else {this})"
proof -
  have sub: "g = this \<or> (level this = 0 \<and> old_gen gch = Some g)"
    if "g \<in> gens_from gch this" for g
    using that
  proof (induction rule: gens_from.induct)
    case gens_from_this
    then show ?case by simp
  next
    case (gens_from_next g g')
    then show ?case
      using assms
      by (auto simp: next_gen_def old_gen_terminal_def split: if_splits)
  qed
  have sup: "og \<in> gens_from gch this" if "level this = 0" and "old_gen gch = Some og" for og
    by (rule gens_from_next [OF gens_from_this]) (simp add: next_gen_def that)
  show ?thesis
    using sub sup by (auto intro: gens_from_this)
qed

text \<open>
  Claim C1. \<^verbatim>\<open>promotion_attempt_is_safe(n)\<close> answers whether
  \<open>n \<le> max_contiguous_available()\<close>: it returns exactly when the walk over the
  generations returns, with that verdict; on a well-formed heap it returns for every \<open>n\<close>,
  and at \<open>n\<close> equal to the available extent the answer is true.
\<close>

theorem promotion_attempt_is_safe_iff:
  "map_option fst (promotion_attempt_is_safe cfg gch this n) =
     map_option (\<lambda>available. n \<le> available) (max_contiguous_available gch this)
   \<and> (old_gen_terminal gch \<longrightarrow>
        (\<exists>available. max_contiguous_available gch this = Some available
           \<and> (\<forall>k. map_option fst (promotion_attempt_is_safe cfg gch this k) = Some (k \<le> available))
           \<and> map_option fst (promotion_attempt_is_safe cfg gch this available) = Some True))"
proof (intro conjI impI)
  show "map_option fst (promotion_attempt_is_safe cfg gch this n) =
     map_option (\<lambda>available. n \<le> available) (max_contiguous_available gch this)"
    by (simp add: promotion_attempt_is_safe_def Let_def split: option.splits)
next
  assume "old_gen_terminal gch"
  then obtain available where a: "max_contiguous_available gch this = Some available"
    by (simp add: max_contiguous_available_value)
  then show "\<exists>available. max_contiguous_available gch this = Some available
           \<and> (\<forall>k. map_option fst (promotion_attempt_is_safe cfg gch this k) = Some (k \<le> available))
           \<and> map_option fst (promotion_attempt_is_safe cfg gch this available) = Some True"
    by (simp add: promotion_attempt_is_safe_def Let_def)
qed

lemma two_gen_heap_terminal: "old_gen_terminal two_gen_heap"
  by (simp add: old_gen_terminal_def two_gen_heap_def tenured_gen_def)

lemma two_gen_heap_available: "max_contiguous_available two_gen_heap young_gen = Some 4096"
  by (simp add: max_contiguous_available_value two_gen_heap_terminal)
     (simp add: two_gen_heap_def young_gen_def tenured_gen_def)

theorem promotion_attempt_is_safe_iff_witness:
  "old_gen_terminal two_gen_heap
   \<and> map_option fst (promotion_attempt_is_safe debug_build two_gen_heap young_gen 4096) = Some True
   \<and> map_option fst (promotion_attempt_is_safe debug_build two_gen_heap young_gen 4097) = Some False"
proof -
  have "map_option fst (promotion_attempt_is_safe debug_build two_gen_heap young_gen 4096) =
      map_option (\<lambda>available. 4096 \<le> available) (max_contiguous_available two_gen_heap young_gen)"
    using promotion_attempt_is_safe_iff [of debug_build two_gen_heap young_gen 4096] by simp
  moreover
  have "map_option fst (promotion_attempt_is_safe debug_build two_gen_heap young_gen 4097) =
      map_option (\<lambda>available. 4097 \<le> available) (max_contiguous_available two_gen_heap young_gen)"
    using promotion_attempt_is_safe_iff [of debug_build two_gen_heap young_gen 4097] by simp
  ultimately show ?thesis
    using two_gen_heap_terminal by (simp add: two_gen_heap_available)
qed

text \<open>
  Claim C2. On a well-formed heap \<^verbatim>\<open>max_contiguous_available()\<close> returns the maximum of
  \<^verbatim>\<open>contiguous_available()\<close> over the generation and the generations reachable from it
  by \<^verbatim>\<open>next_gen()\<close>; called on the young generation of a two-generation chain it returns
  the larger of the young and the old generation's extents.
\<close>

theorem max_contiguous_available_is_chain_max:
  assumes "old_gen_terminal gch"
  shows "max_contiguous_available gch this =
           Some (Max (contiguous_available ` gens_from gch this))
    \<and> (level this = 0 \<and> old_gen gch = Some og \<longrightarrow>
         max_contiguous_available gch this =
           Some (max (contiguous_available this) (contiguous_available og)))"
  using assms by (auto simp: max_contiguous_available_value gens_from_eq split: option.splits)

theorem max_contiguous_available_is_chain_max_witness:
  "old_gen_terminal two_gen_heap
   \<and> level young_gen = 0 \<and> old_gen two_gen_heap = Some tenured_gen
   \<and> contiguous_available young_gen = 512 \<and> contiguous_available tenured_gen = 4096
   \<and> max_contiguous_available two_gen_heap young_gen = Some 4096
   \<and> Max (contiguous_available ` gens_from two_gen_heap young_gen) = 4096"
proof -
  note chain_max =
    max_contiguous_available_is_chain_max [OF two_gen_heap_terminal, of young_gen tenured_gen]
  have young: "level young_gen = 0" "contiguous_available young_gen = 512"
    by (simp_all add: young_gen_def)
  have old: "old_gen two_gen_heap = Some tenured_gen" "contiguous_available tenured_gen = 4096"
    by (simp_all add: two_gen_heap_def tenured_gen_def)
  from chain_max [THEN conjunct2] young old
  have available: "max_contiguous_available two_gen_heap young_gen = Some 4096"
    by simp
  from chain_max [THEN conjunct1]
  have "Max (contiguous_available ` gens_from two_gen_heap young_gen) = 4096"
    unfolding available by simp
  with available young old two_gen_heap_terminal show ?thesis
    by simp
qed

subsection \<open>Promotion\<close>

lemma fold_update_miss:
  "\<forall>i\<in>set xs. f i \<noteq> a \<Longrightarrow> fold (\<lambda>i m'. m'(f i := g i)) xs m a = m a"
  by (induction xs arbitrary: m) auto

lemma fold_update_hit:
  "inj_on f (set xs) \<Longrightarrow> i \<in> set xs \<Longrightarrow> fold (\<lambda>i m'. m'(f i := g i)) xs m (f i) = g i"
proof (induction xs arbitrary: m)
  case Nil
  then show ?case by simp
next
  case (Cons x xs)
  have inj: "inj_on f (set xs)"
    using Cons.prems(1) by (simp add: inj_on_def)
  show ?case
  proof (cases "i \<in> set xs")
    case True
    then show ?thesis
      using Cons.IH [OF inj] by simp
  next
    case False
    with Cons.prems have i: "i = x" and miss: "\<forall>j\<in>set xs. f j \<noteq> f x"
      by (auto simp: inj_on_def)
    have "fold (\<lambda>i m'. m'(f i := g i)) xs (m(f x := g x)) (f x) = (m(f x := g x)) (f x)"
      using miss by (rule fold_update_miss)
    with i show ?thesis
      by (simp del: fun_upd_apply add: fun_upd_same)
  qed
qed

text \<open>Distinct word indices below \<open>2^61\<close> name distinct heap words.\<close>

lemma heap_word_offset_inj:
  assumes "i < 2 ^ 61" and "j < 2 ^ 61"
    and "(a::addr) + HeapWordSize * of_nat i = a + HeapWordSize * of_nat j"
  shows "i = j"
proof -
  from assms(3) have "(of_nat (8 * i) :: 64 word) = of_nat (8 * j)"
    by (simp add: HeapWordSize_def)
  then have "take_bit 64 (8 * i) = take_bit 64 (8 * j)"
    by (simp only: word_of_nat_eq_iff len_of_numeral_defs) simp
  moreover have "8 * i < 2 ^ 64" and "8 * j < 2 ^ 64"
    using assms(1,2) by simp_all
  ultimately show ?thesis
    by (simp add: take_bit_nat_eq_self)
qed

lemma aligned_disjoint_words_copied:
  assumes "unat count \<le> 2 ^ 61" and "i < unat count"
  shows "aligned_disjoint_words src dst count m (dst + HeapWordSize * of_nat i) =
           m (src + HeapWordSize * of_nat i)"
proof -
  have "inj_on (\<lambda>i. dst + HeapWordSize * of_nat i) (set [0..<unat count])"
  proof (rule inj_onI)
    fix x y
    assume "x \<in> set [0..<unat count]" and "y \<in> set [0..<unat count]"
      and "dst + HeapWordSize * of_nat x = dst + HeapWordSize * of_nat y"
    with assms(1) show "x = y"
      by (intro heap_word_offset_inj [of x y dst]) simp_all
  qed
  moreover have "i \<in> set [0..<unat count]"
    using assms(2) by simp
  ultimately show ?thesis
    unfolding aligned_disjoint_words_def
    by (rule fold_update_hit [where f = "\<lambda>i. dst + HeapWordSize * of_nat i"])
qed

lemma aligned_disjoint_words_elsewhere:
  assumes "\<forall>i<unat count. a \<noteq> dst + HeapWordSize * of_nat i"
  shows "aligned_disjoint_words src dst count m a = m a"
  unfolding aligned_disjoint_words_def
  by (rule fold_update_miss) (use assms in auto)

text \<open>
  Claim C3, as amended. When the non-blocking allocation returns null, \<^verbatim>\<open>promote\<close> calls
  the heap's \<^verbatim>\<open>handle_failed_promotion\<close> with the generation, the object and the size and
  returns what it returns, null included, as an ordinary result. When the debug-only hook
  fires, \<^verbatim>\<open>promote\<close> returns null at once: it calls neither \<^verbatim>\<open>allocate\<close> nor the
  handler.
\<close>

theorem promote_failure_paths:
  assumes "ASSERT cfg \<longrightarrow> obj_size = oop_size c (fst r) obj"
  shows "(\<not> PRODUCT cfg \<and> fst (promotion_should_fail c (fst r)) \<longrightarrow>
            promote cfg c this obj obj_size r =
              Inr (NULL, (snd (promotion_should_fail c (fst r)),
                          snd r @ [Call_promotion_should_fail])))
    \<and> ((PRODUCT cfg \<and> r1 = r
         \<or> \<not> PRODUCT cfg
            \<and> invoke Call_promotion_should_fail (promotion_should_fail c) r = (False, r1))
        \<and> allocate c obj_size False (fst r1) = (NULL, v2) \<longrightarrow>
            promote cfg c this obj obj_size r =
              Inr (fst (handle_failed_promotion c this obj obj_size v2),
                   (snd (handle_failed_promotion c this obj obj_size v2),
                    snd r1 @ [Call_allocate obj_size False,
                              Call_handle_failed_promotion obj obj_size])))"
  using assms
  by (auto simp: promote_def invoke_def Let_def split: prod.splits)

theorem promote_failure_paths_witness:
  "promote debug_build bump_collab young_gen 0x100000 2 (full_vm, []) =
     Inr (0x400000, (full_vm, [Call_promotion_should_fail, Call_allocate 2 False,
                                Call_handle_failed_promotion 0x100000 2]))
   \<and> promote debug_build hook_collab young_gen 0x100000 2 (full_vm, []) =
     Inr (NULL, (full_vm, [Call_promotion_should_fail]))"
proof -
  have size_ok: "ASSERT debug_build \<longrightarrow> (2::size_t) = oop_size bump_collab (fst (full_vm, [])) 0x100000"
    and size_ok': "ASSERT debug_build \<longrightarrow> (2::size_t) = oop_size hook_collab (fst (full_vm, [])) 0x100000"
    by (simp_all add: bump_collab_def hook_collab_def)
  have hook: "\<not> PRODUCT debug_build
      \<and> invoke Call_promotion_should_fail (promotion_should_fail bump_collab) (full_vm, []) =
          (False, (full_vm, [Call_promotion_should_fail]))"
    by (simp add: debug_build_def bump_collab_def invoke_def)
  have alloc: "allocate bump_collab 2 False (fst (full_vm, [Call_promotion_should_fail])) = (NULL, full_vm)"
    by (simp add: bump_collab_def full_vm_def)
  have handler: "handle_failed_promotion bump_collab young_gen 0x100000 2 full_vm = (0x400000, full_vm)"
    by (simp add: bump_collab_def)
  have fires: "\<not> PRODUCT debug_build \<and> fst (promotion_should_fail hook_collab (fst (full_vm, [])))"
    "snd (promotion_should_fail hook_collab (fst (full_vm, []))) = full_vm"
    by (simp_all add: debug_build_def hook_collab_def)
  from promote_failure_paths [OF size_ok, where ?r1.0 = "(full_vm, [Call_promotion_should_fail])"
      and ?v2.0 = full_vm and this = young_gen]
    hook alloc handler
  have "promote debug_build bump_collab young_gen 0x100000 2 (full_vm, []) =
     Inr (0x400000, (full_vm, [Call_promotion_should_fail, Call_allocate 2 False,
                                Call_handle_failed_promotion 0x100000 2]))"
    by simp
  moreover
  from promote_failure_paths [OF size_ok', where this = young_gen] fires
  have "promote debug_build hook_collab young_gen 0x100000 2 (full_vm, []) =
     Inr (NULL, (full_vm, [Call_promotion_should_fail]))"
    by simp
  ultimately show ?thesis by simp
qed

text \<open>
  Claim C3 as stated fails where the debug hook fires: in a debug build \<^verbatim>\<open>promote\<close>
  returns null after the single call to the hook, and the handler, which would have
  returned \<open>0x400000\<close> in that state, is not called.
\<close>

theorem promote_hook_skips_handler:
  "promote debug_build hook_collab young_gen 0x100000 2 (full_vm, []) =
     Inr (NULL, (full_vm, [Call_promotion_should_fail]))
   \<and> invoke (Call_handle_failed_promotion 0x100000 2)
        (handle_failed_promotion hook_collab young_gen 0x100000 2)
        (full_vm, [Call_promotion_should_fail]) =
     (0x400000, (full_vm, [Call_promotion_should_fail, Call_handle_failed_promotion 0x100000 2]))"
  by (simp add: promote_def invoke_def hook_collab_def bump_collab_def debug_build_def)

text \<open>
  Claim C4. When the debug hook does not fire and \<^verbatim>\<open>allocate(obj_size, false)\<close> returns a
  non-null address, \<^verbatim>\<open>promote\<close> returns that address; after the allocation it calls
  \<^verbatim>\<open>Copy::aligned_disjoint_words(obj, result, obj_size)\<close> and nothing else, so neither the
  handler nor a collection runs. For an object that fits the address space and whose old and
  new locations do not overlap, each of the \<open>obj_size\<close> words at the new location holds
  the word of the old location, which keeps its words; every word of memory outside the new
  location, and the state of the collaborators, is as the allocation left it.
\<close>

theorem promote_success_copies:
  assumes "ASSERT cfg \<longrightarrow> obj_size = oop_size c (fst r) obj"
    and "PRODUCT cfg \<and> r1 = r
         \<or> \<not> PRODUCT cfg
            \<and> invoke Call_promotion_should_fail (promotion_should_fail c) r = (False, r1)"
    and "allocate c obj_size False (fst r1) = (result, v2)"
    and "result \<noteq> NULL"
  shows "\<exists>v3. promote cfg c this obj obj_size r =
             Inr (result, (v3, snd r1 @ [Call_allocate obj_size False,
                                         Call_aligned_disjoint_words obj result obj_size]))
           \<and> ext v3 = ext v2
           \<and> (unat obj_size \<le> 2 ^ 61
                \<and> (\<forall>i<unat obj_size. \<forall>j<unat obj_size.
                       obj + HeapWordSize * of_nat i \<noteq> result + HeapWordSize * of_nat j) \<longrightarrow>
                (\<forall>i<unat obj_size.
                    mem v3 (result + HeapWordSize * of_nat i) = mem v2 (obj + HeapWordSize * of_nat i)
                    \<and> mem v3 (obj + HeapWordSize * of_nat i) = mem v2 (obj + HeapWordSize * of_nat i)))
           \<and> (\<forall>a. (\<forall>i<unat obj_size. a \<noteq> result + HeapWordSize * of_nat i) \<longrightarrow>
                  mem v3 a = mem v2 a)"
proof -
  let ?v3 = "v2\<lparr>mem := aligned_disjoint_words obj result obj_size (mem v2)\<rparr>"
  have "promote cfg c this obj obj_size r =
          Inr (result, (?v3, snd r1 @ [Call_allocate obj_size False,
                                       Call_aligned_disjoint_words obj result obj_size]))"
    using assms
    by (auto simp: promote_def invoke_def invoke_void_def Copy_aligned_disjoint_words_def Let_def
        split: prod.splits)
  moreover have "ext ?v3 = ext v2"
    by simp
  moreover have "unat obj_size \<le> 2 ^ 61
      \<and> (\<forall>i<unat obj_size. \<forall>j<unat obj_size.
             obj + HeapWordSize * of_nat i \<noteq> result + HeapWordSize * of_nat j) \<longrightarrow>
      (\<forall>i<unat obj_size.
          mem ?v3 (result + HeapWordSize * of_nat i) = mem v2 (obj + HeapWordSize * of_nat i)
          \<and> mem ?v3 (obj + HeapWordSize * of_nat i) = mem v2 (obj + HeapWordSize * of_nat i))"
    by (simp add: aligned_disjoint_words_copied aligned_disjoint_words_elsewhere)
  moreover have "\<forall>a. (\<forall>i<unat obj_size. a \<noteq> result + HeapWordSize * of_nat i) \<longrightarrow>
      mem ?v3 a = mem v2 a"
    by (simp add: aligned_disjoint_words_elsewhere)
  ultimately show ?thesis
    by blast
qed

theorem promote_success_copies_witness:
  "\<exists>v3. promote debug_build bump_collab young_gen 0x100000 2 (roomy_vm, []) =
          Inr (0x120000, (v3, [Call_promotion_should_fail, Call_allocate 2 False,
                               Call_aligned_disjoint_words 0x100000 0x120000 2]))
        \<and> ext v3 = 0x120010
        \<and> mem v3 0x120000 = 0xCAFE \<and> mem v3 0x120008 = 0xBABE
        \<and> mem v3 0x100000 = 0xCAFE \<and> mem v3 0x100008 = 0xBABE"
proof -
  have size_ok: "ASSERT debug_build \<longrightarrow> (2::size_t) = oop_size bump_collab (fst (roomy_vm, [])) 0x100000"
    by (simp add: bump_collab_def)
  have hook: "PRODUCT debug_build \<and> (roomy_vm, [Call_promotion_should_fail]) = (roomy_vm, [])
      \<or> \<not> PRODUCT debug_build
      \<and> invoke Call_promotion_should_fail (promotion_should_fail bump_collab) (roomy_vm, []) =
          (False, (roomy_vm, [Call_promotion_should_fail]))"
    by (simp add: debug_build_def bump_collab_def invoke_def)
  have alloc: "allocate bump_collab 2 False (fst (roomy_vm, [Call_promotion_should_fail])) =
      (0x120000, roomy_vm\<lparr>ext := 0x120010\<rparr>)"
    by (simp add: bump_collab_def roomy_vm_def)
  have non_null: "(0x120000::addr) \<noteq> NULL"
    by (simp add: NULL_def)
  have fits: "unat (2::size_t) \<le> 2 ^ 61"
    by simp
  have less_two: "i < 2 \<longleftrightarrow> i = 0 \<or> i = 1" for i :: nat
    by auto
  have apart: "\<forall>i<unat (2::size_t). \<forall>j<unat (2::size_t).
      (0x100000::addr) + HeapWordSize * of_nat i \<noteq> 0x120000 + HeapWordSize * of_nat j"
    by (simp add: HeapWordSize_def less_two all_conj_distrib)
  from promote_success_copies [OF size_ok hook alloc non_null, where this = young_gen]
  obtain v3 where
    ret: "promote debug_build bump_collab young_gen 0x100000 2 (roomy_vm, []) =
          Inr (0x120000, (v3, snd (roomy_vm, [Call_promotion_should_fail]) @ [Call_allocate 2 False,
                               Call_aligned_disjoint_words 0x100000 0x120000 2]))"
    and ext: "ext v3 = ext (roomy_vm\<lparr>ext := 0x120010\<rparr>)"
    and copied: "unat (2::size_t) \<le> 2 ^ 61
         \<and> (\<forall>i<unat (2::size_t). \<forall>j<unat (2::size_t).
                (0x100000::addr) + HeapWordSize * of_nat i \<noteq> 0x120000 + HeapWordSize * of_nat j) \<longrightarrow>
         (\<forall>i<unat (2::size_t).
            mem v3 (0x120000 + HeapWordSize * of_nat i) =
              mem (roomy_vm\<lparr>ext := 0x120010\<rparr>) (0x100000 + HeapWordSize * of_nat i)
            \<and> mem v3 (0x100000 + HeapWordSize * of_nat i) =
              mem (roomy_vm\<lparr>ext := 0x120010\<rparr>) (0x100000 + HeapWordSize * of_nat i))"
    by blast
  from copied fits apart
  have c: "\<forall>i<unat (2::size_t).
            mem v3 (0x120000 + HeapWordSize * of_nat i) =
              mem (roomy_vm\<lparr>ext := 0x120010\<rparr>) (0x100000 + HeapWordSize * of_nat i)
            \<and> mem v3 (0x100000 + HeapWordSize * of_nat i) =
              mem (roomy_vm\<lparr>ext := 0x120010\<rparr>) (0x100000 + HeapWordSize * of_nat i)"
    by blast
  from c [THEN spec, of 0] have w0: "mem v3 0x120000 = 0xCAFE" and s0: "mem v3 0x100000 = 0xCAFE"
    by (simp_all add: roomy_vm_def object_mem_def HeapWordSize_def)
  from c [THEN spec, of 1] have w1: "mem v3 0x120008 = 0xBABE" and s1: "mem v3 0x100008 = 0xBABE"
    by (simp_all add: roomy_vm_def object_mem_def HeapWordSize_def)
  from ret ext w0 w1 s0 s1 show ?thesis
    by auto
qed

text \<open>
  Claim C5. \<^verbatim>\<open>par_promote\<close> of the base generation stops the VM with
  \<^verbatim>\<open>ShouldNotCallThis()\<close> whatever the thread number, the object, the mark word and the
  size; it never returns an address.
\<close>

theorem par_promote_fatal:
  "par_promote thread_num obj m word_sz r = Inl Should_not_call_this
   \<and> (\<forall>a r'. par_promote thread_num obj m word_sz r \<noteq> Inr (a, r'))"
  by (simp add: par_promote_def ShouldNotCallThis_def)

theorem par_promote_fatal_witness:
  "par_promote 0 0x100000 1 2 (roomy_vm, []) = Inl Should_not_call_this"
  using par_promote_fatal [of 0 "0x100000" 1 2 "(roomy_vm, [])"] by simp

subsection \<open>Lookups over the spaces\<close>

text \<open>The closure of \<^verbatim>\<open>space_containing\<close> keeps the first space whose reserved extent
  holds the address.\<close>

lemma is_in_reserved_closure_set:
  "iir_sp blk \<noteq> None \<Longrightarrow> fold (GenerationIsInReservedClosure_do_space S) ss blk = blk"
proof (induction ss)
  case Nil
  show ?case by simp
next
  case (Cons s ss)
  then have "GenerationIsInReservedClosure_do_space S s blk = blk"
    by (simp add: GenerationIsInReservedClosure_do_space_def)
  with Cons show ?case by simp
qed

lemma is_in_reserved_closure_find:
  "iir_sp blk = None \<Longrightarrow> iir_p blk = p \<Longrightarrow>
     iir_sp (fold (GenerationIsInReservedClosure_do_space S) ss blk) =
       find (\<lambda>s. sp_is_in_reserved (S s) p) ss"
proof (induction ss)
  case Nil
  then show ?case by simp
next
  case (Cons s ss)
  show ?case
  proof (cases "sp_is_in_reserved (S s) p")
    case True
    with Cons.prems
    have "GenerationIsInReservedClosure_do_space S s blk = blk\<lparr>iir_sp := Some s\<rparr>"
      by (simp add: GenerationIsInReservedClosure_do_space_def)
    moreover have "fold (GenerationIsInReservedClosure_do_space S) ss (blk\<lparr>iir_sp := Some s\<rparr>) =
        blk\<lparr>iir_sp := Some s\<rparr>"
      by (rule is_in_reserved_closure_set) simp
    ultimately show ?thesis
      using True by simp
  next
    case False
    with Cons.prems have "GenerationIsInReservedClosure_do_space S s blk = blk"
      by (simp add: GenerationIsInReservedClosure_do_space_def)
    with False Cons show ?thesis
      by simp
  qed
qed

lemma space_containing_find:
  "space_containing S this p = find (\<lambda>s. sp_is_in_reserved (S s) p) (spaces this)"
  unfolding space_containing_def space_iterate_def
  by (rule is_in_reserved_closure_find) (simp_all add: GenerationIsInReservedClosure_def)

text \<open>The closure of \<^verbatim>\<open>block_start\<close> keeps the first answer that is not null.\<close>

lemma block_start_closure_set:
  "bs_start blk \<noteq> NULL \<Longrightarrow> fold (GenerationBlockStartClosure_do_space S) ss blk = blk"
proof (induction ss)
  case Nil
  show ?case by simp
next
  case (Cons s ss)
  then have "GenerationBlockStartClosure_do_space S s blk = blk"
    by (simp add: GenerationBlockStartClosure_do_space_def)
  with Cons show ?case by simp
qed

lemma block_start_closure_find:
  "bs_start blk = NULL \<Longrightarrow> bs_p blk = p \<Longrightarrow>
     bs_start (fold (GenerationBlockStartClosure_do_space S) ss blk) =
       (case find (\<lambda>s. sp_is_in_reserved (S s) p \<and> sp_block_start (S s) p \<noteq> NULL) ss of
          None \<Rightarrow> NULL
        | Some s \<Rightarrow> sp_block_start (S s) p)"
proof (induction ss)
  case Nil
  then show ?case by simp
next
  case (Cons s ss)
  show ?case
  proof (cases "sp_is_in_reserved (S s) p \<and> sp_block_start (S s) p \<noteq> NULL")
    case True
    with Cons.prems
    have "GenerationBlockStartClosure_do_space S s blk = blk\<lparr>bs_start := sp_block_start (S s) p\<rparr>"
      by (simp add: GenerationBlockStartClosure_do_space_def)
    moreover
    have "fold (GenerationBlockStartClosure_do_space S) ss (blk\<lparr>bs_start := sp_block_start (S s) p\<rparr>) =
        blk\<lparr>bs_start := sp_block_start (S s) p\<rparr>"
      by (rule block_start_closure_set) (use True in simp)
    ultimately show ?thesis
      using True by simp
  next
    case False
    with Cons.prems have step: "GenerationBlockStartClosure_do_space S s blk = blk"
      by (cases blk) (auto simp: GenerationBlockStartClosure_do_space_def)
    have skip: "find (\<lambda>s. sp_is_in_reserved (S s) p \<and> sp_block_start (S s) p \<noteq> NULL) (s # ss) =
        find (\<lambda>s. sp_is_in_reserved (S s) p \<and> sp_block_start (S s) p \<noteq> NULL) ss"
      using False by (simp only: find.simps if_False)
    show ?thesis
      unfolding skip using Cons.IH [OF Cons.prems] by (simp add: step)
  qed
qed

lemma block_start_find:
  "block_start S this p =
     (case find (\<lambda>s. sp_is_in_reserved (S s) p \<and> sp_block_start (S s) p \<noteq> NULL) (spaces this) of
        None \<Rightarrow> NULL
      | Some s \<Rightarrow> sp_block_start (S s) p)"
  unfolding block_start_def space_iterate_def
  by (rule block_start_closure_find) (simp_all add: GenerationBlockStartClosure_def)

text \<open>The closure of \<^verbatim>\<open>block_size\<close> keeps the first answer that is not zero.\<close>

lemma block_size_closure_set:
  "bz_size blk \<noteq> 0 \<Longrightarrow> fold (GenerationBlockSizeClosure_do_space S) ss blk = blk"
proof (induction ss)
  case Nil
  show ?case by simp
next
  case (Cons s ss)
  then have "GenerationBlockSizeClosure_do_space S s blk = blk"
    by (simp add: GenerationBlockSizeClosure_do_space_def)
  with Cons show ?case by simp
qed

lemma block_size_closure_find:
  "bz_size blk = 0 \<Longrightarrow> bz_p blk = p \<Longrightarrow>
     bz_size (fold (GenerationBlockSizeClosure_do_space S) ss blk) =
       (case find (\<lambda>s. sp_is_in_reserved (S s) p \<and> sp_block_size (S s) p \<noteq> 0) ss of
          None \<Rightarrow> 0
        | Some s \<Rightarrow> sp_block_size (S s) p)"
proof (induction ss)
  case Nil
  then show ?case by simp
next
  case (Cons s ss)
  show ?case
  proof (cases "sp_is_in_reserved (S s) p \<and> sp_block_size (S s) p \<noteq> 0")
    case True
    with Cons.prems
    have "GenerationBlockSizeClosure_do_space S s blk = blk\<lparr>bz_size := sp_block_size (S s) p\<rparr>"
      by (simp add: GenerationBlockSizeClosure_do_space_def)
    moreover
    have "fold (GenerationBlockSizeClosure_do_space S) ss (blk\<lparr>bz_size := sp_block_size (S s) p\<rparr>) =
        blk\<lparr>bz_size := sp_block_size (S s) p\<rparr>"
      by (rule block_size_closure_set) (use True in simp)
    ultimately show ?thesis
      using True by simp
  next
    case False
    with Cons.prems have step: "GenerationBlockSizeClosure_do_space S s blk = blk"
      by (cases blk) (auto simp: GenerationBlockSizeClosure_do_space_def)
    have skip: "find (\<lambda>s. sp_is_in_reserved (S s) p \<and> sp_block_size (S s) p \<noteq> 0) (s # ss) =
        find (\<lambda>s. sp_is_in_reserved (S s) p \<and> sp_block_size (S s) p \<noteq> 0) ss"
      using False by (simp only: find.simps if_False)
    show ?thesis
      unfolding skip using Cons.IH [OF Cons.prems] by (simp add: step)
  qed
qed

text \<open>The size that the closure of \<^verbatim>\<open>block_size\<close> holds after the iteration.\<close>

lemma block_size_closure_result:
  "bz_size (space_iterate this (GenerationBlockSizeClosure_do_space S) False
              (GenerationBlockSizeClosure p)) =
     (case find (\<lambda>s. sp_is_in_reserved (S s) p \<and> sp_block_size (S s) p \<noteq> 0) (spaces this) of
        None \<Rightarrow> 0
      | Some s \<Rightarrow> sp_block_size (S s) p)"
  unfolding space_iterate_def
  by (rule block_size_closure_find) (simp_all add: GenerationBlockSizeClosure_def)

lemma block_size_find:
  "block_size cfg S this p =
     (let n = (case find (\<lambda>s. sp_is_in_reserved (S s) p \<and> sp_block_size (S s) p \<noteq> 0) (spaces this) of
                 None \<Rightarrow> 0
               | Some s \<Rightarrow> sp_block_size (S s) p)
      in if ASSERT cfg \<and> n = 0 then Inl (Assert_failed ''seems reasonable'') else Inr n)"
  unfolding block_size_def Let_def block_size_closure_result
  by (simp only: word_neq_0_conv [symmetric] not_not)

text \<open>The closure of \<^verbatim>\<open>block_is_obj\<close> turns true at the first space that holds the
  address and calls the block an object.\<close>

lemma block_is_obj_closure_set:
  "bo_is_obj blk \<Longrightarrow> fold (GenerationBlockIsObjClosure_do_space S) ss blk = blk"
proof (induction ss)
  case Nil
  show ?case by simp
next
  case (Cons s ss)
  then have "GenerationBlockIsObjClosure_do_space S s blk = blk"
    by (simp add: GenerationBlockIsObjClosure_do_space_def)
  with Cons show ?case by simp
qed

lemma block_is_obj_closure_find:
  "\<not> bo_is_obj blk \<Longrightarrow> bo_p blk = p \<Longrightarrow>
     bo_is_obj (fold (GenerationBlockIsObjClosure_do_space S) ss blk) =
       (find (\<lambda>s. sp_is_in_reserved (S s) p \<and> sp_block_is_obj (S s) p) ss \<noteq> None)"
proof (induction ss)
  case Nil
  then show ?case by simp
next
  case (Cons s ss)
  show ?case
  proof (cases "sp_is_in_reserved (S s) p \<and> sp_block_is_obj (S s) p")
    case True
    with Cons.prems
    have "GenerationBlockIsObjClosure_do_space S s blk = blk\<lparr>bo_is_obj := True\<rparr>"
      by (simp add: GenerationBlockIsObjClosure_do_space_def)
    moreover
    have "fold (GenerationBlockIsObjClosure_do_space S) ss (blk\<lparr>bo_is_obj := True\<rparr>) =
        blk\<lparr>bo_is_obj := True\<rparr>"
      by (rule block_is_obj_closure_set) simp
    ultimately show ?thesis
      using True by simp
  next
    case False
    with Cons.prems have step: "GenerationBlockIsObjClosure_do_space S s blk = blk"
      by (cases blk) (auto simp: GenerationBlockIsObjClosure_do_space_def)
    have skip: "find (\<lambda>s. sp_is_in_reserved (S s) p \<and> sp_block_is_obj (S s) p) (s # ss) =
        find (\<lambda>s. sp_is_in_reserved (S s) p \<and> sp_block_is_obj (S s) p) ss"
      using False by (simp only: find.simps if_False)
    show ?thesis
      unfolding skip using Cons.IH [OF Cons.prems] by (simp add: step)
  qed
qed

lemma block_is_obj_find:
  "block_is_obj S this p =
     (find (\<lambda>s. sp_is_in_reserved (S s) p \<and> sp_block_is_obj (S s) p) (spaces this) \<noteq> None)"
  unfolding block_is_obj_def space_iterate_def
  by (rule block_is_obj_closure_find) (simp_all add: GenerationBlockIsObjClosure_def)

text \<open>When one space only holds the address, a search for a space that holds it and
  passes a further test finds that space or nothing.\<close>

lemma find_in_only_space:
  assumes "s \<in> set ss"
    and "P s"
    and "\<And>s'. s' \<in> set ss \<Longrightarrow> P s' \<Longrightarrow> s' = s"
  shows "find (\<lambda>s'. P s' \<and> Q s') ss = (if Q s then Some s else None)"
  using assms
proof (induction ss)
  case Nil
  then show ?case by simp
next
  case (Cons x xs)
  show ?case
  proof (cases "P x")
    case True
    then have x: "x = s"
      by (intro Cons.prems(3)) simp_all
    show ?thesis
    proof (cases "Q s")
      case True
      with x \<open>P x\<close> show ?thesis by simp
    next
      case False
      then have "\<not> (\<exists>s'. s' \<in> set xs \<and> P s' \<and> Q s')"
        using Cons.prems(3) by fastforce
      then have "find (\<lambda>s'. P s' \<and> Q s') xs = None"
        unfolding find_None_iff .
      with x False show ?thesis by simp
    qed
  next
    case False
    with Cons.prems(1,2) have "s \<in> set xs"
      by (cases "x = s") simp_all
    then have "find (\<lambda>s'. P s' \<and> Q s') xs = (if Q s then Some s else None)"
      by (rule Cons.IH) (simp_all add: Cons.prems)
    with False show ?thesis by simp
  qed
qed

lemma find_only_space:
  assumes "s \<in> set ss"
    and "P s"
    and "\<And>s'. s' \<in> set ss \<Longrightarrow> P s' \<Longrightarrow> s' = s"
  shows "find P ss = Some s"
  using find_in_only_space [of s ss P "\<lambda>_. True", OF assms] by simp

text \<open>With disjoint reserved extents, the answer of the generation is the answer of the
  one space that holds the address.\<close>

lemma disjoint_only_space:
  assumes "spaces_disjoint S this" and "s \<in> set (spaces this)" and "sp_is_in_reserved (S s) q"
    and "s' \<in> set (spaces this)" and "sp_is_in_reserved (S s') q"
  shows "s' = s"
  using assms unfolding spaces_disjoint_def by blast

lemma space_containing_only_space:
  assumes "spaces_disjoint S this" and "s \<in> set (spaces this)" and "sp_is_in_reserved (S s) q"
  shows "space_containing S this q = Some s"
  unfolding space_containing_find
  by (rule find_only_space [OF assms(2)]) (auto intro: assms disjoint_only_space [OF assms])

lemma block_start_only_space:
  assumes "spaces_disjoint S this" and "s \<in> set (spaces this)" and "sp_is_in_reserved (S s) q"
  shows "block_start S this q = sp_block_start (S s) q"
proof -
  have "find (\<lambda>s'. sp_is_in_reserved (S s') q \<and> sp_block_start (S s') q \<noteq> NULL) (spaces this) =
      (if sp_block_start (S s) q \<noteq> NULL then Some s else None)"
    by (rule find_in_only_space [OF assms(2)]) (auto intro: assms disjoint_only_space [OF assms])
  then show ?thesis
    by (simp add: block_start_find)
qed

lemma block_size_only_space:
  assumes "spaces_disjoint S this" and "s \<in> set (spaces this)" and "sp_is_in_reserved (S s) q"
  shows "block_size cfg S this q =
     (if ASSERT cfg \<and> sp_block_size (S s) q = 0
      then Inl (Assert_failed ''seems reasonable'')
      else Inr (sp_block_size (S s) q))"
proof -
  have "find (\<lambda>s'. sp_is_in_reserved (S s') q \<and> sp_block_size (S s') q \<noteq> 0) (spaces this) =
      (if sp_block_size (S s) q \<noteq> 0 then Some s else None)"
    by (rule find_in_only_space [OF assms(2)]) (auto intro: assms disjoint_only_space [OF assms])
  then show ?thesis
    by (simp add: block_size_find)
qed

lemma block_is_obj_only_space:
  assumes "spaces_disjoint S this" and "s \<in> set (spaces this)" and "sp_is_in_reserved (S s) q"
  shows "block_is_obj S this q = sp_block_is_obj (S s) q"
proof -
  have "find (\<lambda>s'. sp_is_in_reserved (S s') q \<and> sp_block_is_obj (S s') q) (spaces this) =
      (if sp_block_is_obj (S s) q then Some s else None)"
    by (rule find_in_only_space [OF assms(2)]) (auto intro: assms disjoint_only_space [OF assms])
  then show ?thesis
    by (simp add: block_is_obj_find)
qed

text \<open>The example spaces.\<close>

lemma young_spaces_disjoint: "spaces_disjoint young_spaces young_gen"
  unfolding spaces_disjoint_def
  by (auto simp: young_gen_def young_spaces_def two_word_blocks_def
      word_le_nat_alt word_less_nat_alt)

text \<open>
  Claim C6. When an owned space holds the address in its reserved extent and has a block
  there (its \<^verbatim>\<open>block_size\<close> is positive), \<^verbatim>\<open>Generation::block_size\<close> returns a positive
  number of words. A zero is no answer: where assertions are compiled in, the call stops
  at the assertion rather than return 0.
\<close>

theorem block_size_positive:
  "(s \<in> set (spaces this) \<and> sp_is_in_reserved (S s) a \<and> sp_block_size (S s) a > 0 \<longrightarrow>
      (\<exists>n. block_size cfg S this a = Inr n \<and> n > 0))
   \<and> (ASSERT cfg \<longrightarrow> block_size cfg S this a \<noteq> Inr 0)"
proof (intro conjI impI)
  assume s: "s \<in> set (spaces this) \<and> sp_is_in_reserved (S s) a \<and> sp_block_size (S s) a > 0"
  let ?P = "\<lambda>s. sp_is_in_reserved (S s) a \<and> sp_block_size (S s) a \<noteq> 0"
  from s have "\<exists>x. x \<in> set (spaces this) \<and> ?P x"
    by (auto simp: word_gt_0)
  then have "find ?P (spaces this) \<noteq> None"
    by (simp only: find_None_iff not_not)
  then obtain s' where found: "find ?P (spaces this) = Some s'"
    by blast
  then have "?P s'"
    by (auto simp: find_Some_iff)
  with found show "\<exists>n. block_size cfg S this a = Inr n \<and> n > 0"
    by (simp add: block_size_find word_gt_0)
next
  assume "ASSERT cfg"
  then show "block_size cfg S this a \<noteq> Inr 0"
    by (simp add: block_size_find Let_def)
qed

theorem block_size_positive_witness:
  "2 \<in> set (spaces young_gen) \<and> sp_is_in_reserved (young_spaces 2) 0x120010
   \<and> sp_block_size (young_spaces 2) 0x120010 = 2
   \<and> block_size debug_build young_spaces young_gen 0x120010 = Inr 2
   \<and> block_size debug_build young_spaces young_gen 0x500000 = Inl (Assert_failed ''seems reasonable'')"
proof -
  have owned: "2 \<in> set (spaces young_gen)"
    by (simp add: young_gen_def)
  have holds: "sp_is_in_reserved (young_spaces 2) 0x120010"
    and size: "sp_block_size (young_spaces 2) 0x120010 = 2"
    by (simp_all add: young_spaces_def two_word_blocks_def)
  from block_size_positive [of 2 young_gen young_spaces "0x120010" debug_build] owned holds size
  obtain n where n: "block_size debug_build young_spaces young_gen 0x120010 = Inr n"
    by auto
  have "block_size debug_build young_spaces young_gen 0x120010 = Inr 2"
    using block_size_only_space [OF young_spaces_disjoint owned holds, of debug_build] size
    by simp
  moreover
  have "block_size debug_build young_spaces young_gen 0x500000 = Inl (Assert_failed ''seems reasonable'')"
    by (simp add: block_size_find young_gen_def young_spaces_def two_word_blocks_def debug_build_def)
  ultimately show ?thesis
    using owned holds size n by simp
qed

text \<open>
  Claim C9. Where the reserved extents of the owned spaces do not overlap, and the address
  lies in a block of an owned space (the space holds the address, the start of its block
  lies in the space, and that start is the start of its own block),
  \<^verbatim>\<open>block_start(block_start(a))\<close> is \<^verbatim>\<open>block_start(a)\<close>.
\<close>

theorem block_start_idempotent:
  assumes "spaces_disjoint S this"
    and "s \<in> set (spaces this)"
    and "sp_is_in_reserved (S s) a"
    and "sp_is_in_reserved (S s) (sp_block_start (S s) a)"
    and "sp_block_start (S s) (sp_block_start (S s) a) = sp_block_start (S s) a"
  shows "block_start S this (block_start S this a) = block_start S this a"
proof -
  have "block_start S this a = sp_block_start (S s) a"
    using assms(1-3) by (rule block_start_only_space)
  moreover have "block_start S this (sp_block_start (S s) a) =
      sp_block_start (S s) (sp_block_start (S s) a)"
    using assms(1,2,4) by (rule block_start_only_space)
  ultimately show ?thesis
    using assms(5) by simp
qed

theorem block_start_idempotent_witness:
  "spaces_disjoint young_spaces young_gen
   \<and> 2 \<in> set (spaces young_gen)
   \<and> sp_is_in_reserved (young_spaces 2) 0x12001C
   \<and> sp_block_start (young_spaces 2) 0x12001C = 0x120010
   \<and> sp_block_start (young_spaces 2) 0x120010 = 0x120010
   \<and> block_start young_spaces young_gen (block_start young_spaces young_gen 0x12001C) =
       block_start young_spaces young_gen 0x12001C"
proof -
  have owned: "2 \<in> set (spaces young_gen)"
    by (simp add: young_gen_def)
  have holds: "sp_is_in_reserved (young_spaces 2) 0x12001C"
    and start: "sp_block_start (young_spaces 2) 0x12001C = 0x120010"
    and start': "sp_block_start (young_spaces 2) 0x120010 = 0x120010"
    and holds': "sp_is_in_reserved (young_spaces 2) 0x120010"
    by (simp_all add: young_spaces_def two_word_blocks_def)
  have "block_start young_spaces young_gen (block_start young_spaces young_gen 0x12001C) =
       block_start young_spaces young_gen 0x12001C"
    by (rule block_start_idempotent [OF young_spaces_disjoint owned holds])
      (simp_all add: start start' holds')
  with young_spaces_disjoint owned holds start start' show ?thesis
    by simp
qed

text \<open>The space that \<^verbatim>\<open>space_containing\<close> returns is an owned space whose reserved
  extent holds the address.\<close>

lemma space_containing_owned:
  assumes "space_containing S this p = Some s"
  shows "s \<in> set (spaces this) \<and> sp_is_in_reserved (S s) p"
proof -
  from assms have "find (\<lambda>s. sp_is_in_reserved (S s) p) (spaces this) = Some s"
    by (simp only: space_containing_find)
  then obtain i where "i < length (spaces this)" and "sp_is_in_reserved (S (spaces this ! i)) p"
    and "s = spaces this ! i"
    unfolding find_Some_iff by blast
  then show ?thesis
    by simp
qed

text \<open>
  Claim C10. For an address in no owned space's reserved extent, \<^verbatim>\<open>block_start\<close> returns
  null rather than fail, \<^verbatim>\<open>space_containing\<close> returns null and \<^verbatim>\<open>block_is_obj\<close> returns
  false. \<^verbatim>\<open>space_containing\<close> returns the first space, in the order of the enumeration,
  whose reserved extent holds the address. Where the reserved extents of the owned spaces do
  not overlap, \<^verbatim>\<open>block_start\<close>, \<^verbatim>\<open>block_size\<close> and \<^verbatim>\<open>block_is_obj\<close> return what that
  first space answers, whatever the other spaces would answer.
\<close>

theorem lookups_first_containing_space:
  "((\<forall>s\<in>set (spaces this). \<not> sp_is_in_reserved (S s) p) \<longrightarrow>
      block_start S this p = NULL \<and> space_containing S this p = None \<and> \<not> block_is_obj S this p)
   \<and> space_containing S this p = find (\<lambda>s. sp_is_in_reserved (S s) p) (spaces this)
   \<and> (spaces_disjoint S this \<and> space_containing S this p = Some s \<longrightarrow>
        block_start S this p = sp_block_start (S s) p
        \<and> block_is_obj S this p = sp_block_is_obj (S s) p
        \<and> block_size cfg S this p =
            (if ASSERT cfg \<and> sp_block_size (S s) p = 0
             then Inl (Assert_failed ''seems reasonable'')
             else Inr (sp_block_size (S s) p)))"
proof (intro conjI impI)
  assume none: "\<forall>s\<in>set (spaces this). \<not> sp_is_in_reserved (S s) p"
  then have "find (\<lambda>s. sp_is_in_reserved (S s) p) (spaces this) = None"
    and "find (\<lambda>s. sp_is_in_reserved (S s) p \<and> sp_block_start (S s) p \<noteq> NULL) (spaces this) = None"
    and "find (\<lambda>s. sp_is_in_reserved (S s) p \<and> sp_block_is_obj (S s) p) (spaces this) = None"
    unfolding find_None_iff by blast+
  then show "block_start S this p = NULL" and "space_containing S this p = None"
    and "\<not> block_is_obj S this p"
    by (simp_all add: block_start_find space_containing_find block_is_obj_find)
next
  show "space_containing S this p = find (\<lambda>s. sp_is_in_reserved (S s) p) (spaces this)"
    by (rule space_containing_find)
next
  assume first: "spaces_disjoint S this \<and> space_containing S this p = Some s"
  then have disjoint: "spaces_disjoint S this"
    and owned: "s \<in> set (spaces this)" and holds: "sp_is_in_reserved (S s) p"
    using space_containing_owned [of S this p s] by simp_all
  from disjoint owned holds show "block_start S this p = sp_block_start (S s) p"
    by (rule block_start_only_space)
  from disjoint owned holds show "block_is_obj S this p = sp_block_is_obj (S s) p"
    by (rule block_is_obj_only_space)
  from disjoint owned holds show "block_size cfg S this p =
            (if ASSERT cfg \<and> sp_block_size (S s) p = 0
             then Inl (Assert_failed ''seems reasonable'')
             else Inr (sp_block_size (S s) p))"
    by (rule block_size_only_space)
qed

theorem lookups_first_containing_space_witness:
  "spaces_disjoint young_spaces young_gen
   \<and> space_containing young_spaces young_gen 0x130028 = Some 3
   \<and> block_start young_spaces young_gen 0x130028 = 0x130020
   \<and> block_is_obj young_spaces young_gen 0x130028
   \<and> block_size debug_build young_spaces young_gen 0x130028 = Inr 2
   \<and> block_start young_spaces young_gen 0x500000 = NULL
   \<and> space_containing young_spaces young_gen 0x500000 = None
   \<and> \<not> block_is_obj young_spaces young_gen 0x500000"
proof -
  note lookups = lookups_first_containing_space [of young_gen young_spaces _ 3 debug_build]
  have owned: "3 \<in> set (spaces young_gen)"
    by (simp add: young_gen_def)
  have holds: "sp_is_in_reserved (young_spaces 3) 0x130028"
    by (simp add: young_spaces_def two_word_blocks_def)
  have first: "space_containing young_spaces young_gen 0x130028 = Some 3"
    using young_spaces_disjoint owned holds by (rule space_containing_only_space)
  have answers: "sp_block_start (young_spaces 3) 0x130028 = 0x130020"
    "sp_block_is_obj (young_spaces 3) 0x130028"
    "sp_block_size (young_spaces 3) 0x130028 = 2"
    by (simp_all add: young_spaces_def two_word_blocks_def)
  have asserts: "ASSERT debug_build"
    by (simp add: debug_build_def)
  have outside: "\<forall>s\<in>set (spaces young_gen). \<not> sp_is_in_reserved (young_spaces s) 0x500000"
    by (simp add: young_gen_def young_spaces_def two_word_blocks_def)
  note inside = lookups [of "0x130028", THEN conjunct2, THEN conjunct2, THEN mp,
      OF conjI [OF young_spaces_disjoint first]]
  from inside
  have "block_start young_spaces young_gen 0x130028 = 0x130020"
    and "block_is_obj young_spaces young_gen 0x130028"
    and "block_size debug_build young_spaces young_gen 0x130028 = Inr 2"
    by (simp_all add: answers asserts)
  moreover
  from lookups [of "0x500000", THEN conjunct1, THEN mp, OF outside]
  have "block_start young_spaces young_gen 0x500000 = NULL"
    and "space_containing young_spaces young_gen 0x500000 = None"
    and "\<not> block_is_obj young_spaces young_gen 0x500000"
    by simp_all
  ultimately show ?thesis
    using young_spaces_disjoint first by simp
qed

subsection \<open>Compaction\<close>

lemma prepare_loop_null: "prepare_for_compaction_loop c cp None r = Some r"
  by (subst prepare_for_compaction_loop.simps) simp

lemma prepare_loop_space:
  "prepare_for_compaction_loop c cp (Some s) r =
     prepare_for_compaction_loop c cp
       (next_compaction_space c (sp_prepare_for_compaction c s cp (fst r)) s)
       (invoke_void (Call_prepare_for_compaction s cp) (sp_prepare_for_compaction c s cp) r)"
  by (subst prepare_for_compaction_loop.simps) (simp add: Let_def invoke_void_def)

lemma compact_loop_null: "compact_loop c None r = Some r"
  by (subst compact_loop.simps) simp

lemma compact_loop_space:
  "compact_loop c (Some s) r =
     compact_loop c (next_compaction_space c (sp_compact c s (fst r)) s)
       (invoke_void (Call_compact s) (sp_compact c s) r)"
  by (subst compact_loop.simps) (simp add: Let_def invoke_void_def)

text \<open>Visiting a list of spaces one after the other: the state goes through the
  operations in order and the calls are recorded in order.\<close>

lemma fold_invoke_void:
  "fold (\<lambda>s. invoke_void (cl s) (f s)) ss r = (fold f ss (fst r), snd r @ map cl ss)"
  by (induction ss arbitrary: r) (simp_all add: invoke_void_def)

lemma prepare_loop_chain:
  assumes "compaction_chain nxt first ss"
    and "next_compaction_space c (fst r) = nxt"
    and "\<And>s. keeps_links c (sp_prepare_for_compaction c s cp)"
  shows "prepare_for_compaction_loop c cp first r =
     Some (fold (\<lambda>s. invoke_void (Call_prepare_for_compaction s cp)
                       (sp_prepare_for_compaction c s cp)) ss r)"
  using assms(1,2)
proof (induction arbitrary: r rule: compaction_chain.induct)
  case chain_null
  show ?case by (simp add: prepare_loop_null)
next
  case (chain_link s ss)
  let ?r' = "invoke_void (Call_prepare_for_compaction s cp) (sp_prepare_for_compaction c s cp) r"
  have links: "next_compaction_space c (fst ?r') = nxt"
    using assms(3) [of s] chain_link.prems by (simp add: keeps_links_def invoke_void_def)
  then have "next_compaction_space c (sp_prepare_for_compaction c s cp (fst r)) s = nxt s"
    by (simp add: invoke_void_def)
  then show ?case
    using chain_link.IH [OF links] by (simp add: prepare_loop_space)
qed

lemma compact_loop_chain:
  assumes "compaction_chain nxt first ss"
    and "next_compaction_space c (fst r) = nxt"
    and "\<And>s. keeps_links c (sp_compact c s)"
  shows "compact_loop c first r =
     Some (fold (\<lambda>s. invoke_void (Call_compact s) (sp_compact c s)) ss r)"
  using assms(1,2)
proof (induction arbitrary: r rule: compaction_chain.induct)
  case chain_null
  show ?case by (simp add: compact_loop_null)
next
  case (chain_link s ss)
  let ?r' = "invoke_void (Call_compact s) (sp_compact c s) r"
  have links: "next_compaction_space c (fst ?r') = nxt"
    using assms(3) [of s] chain_link.prems by (simp add: keeps_links_def invoke_void_def)
  then have "next_compaction_space c (sp_compact c s (fst r)) s = nxt s"
    by (simp add: invoke_void_def)
  then show ?case
    using chain_link.IH [OF links] by (simp add: compact_loop_space)
qed

text \<open>
  Claim C7. Where the collaborators' \<^verbatim>\<open>prepare_for_compaction\<close> and \<^verbatim>\<open>compact\<close> keep the
  successor links, \<^verbatim>\<open>Generation::prepare_for_compaction\<close> and \<^verbatim>\<open>Generation::compact\<close>
  return and call exactly the spaces of the chain that starts at
  \<^verbatim>\<open>first_compaction_space()\<close> and follows \<^verbatim>\<open>next_compaction_space()\<close>, in that order;
  every space of the chain receives the same compaction point and the state its
  predecessor left. \<^verbatim>\<open>Generation::adjust_pointers\<close> calls every owned space, in the order
  of the enumeration.
\<close>

theorem compaction_passes_visit:
  assumes "\<forall>s. keeps_links c (sp_prepare_for_compaction c s cp)"
    and "\<forall>s. keeps_links c (sp_compact c s)"
    and "compaction_chain (next_compaction_space c (fst r)) (first_compaction_space this) chain"
  shows "prepare_for_compaction c this cp r =
           Some (fold (\<lambda>s. sp_prepare_for_compaction c s cp) chain (fst r),
                 snd r @ map (\<lambda>s. Call_prepare_for_compaction s cp) chain)
    \<and> compact c this r =
           Some (fold (sp_compact c) chain (fst r), snd r @ map Call_compact chain)
    \<and> adjust_pointers c this r =
           (fold (sp_adjust_pointers c) (spaces this) (fst r),
            snd r @ map Call_adjust_pointers (spaces this))"
proof (intro conjI)
  show "prepare_for_compaction c this cp r =
           Some (fold (\<lambda>s. sp_prepare_for_compaction c s cp) chain (fst r),
                 snd r @ map (\<lambda>s. Call_prepare_for_compaction s cp) chain)"
    unfolding prepare_for_compaction_def
    using prepare_loop_chain [OF assms(3) refl, of cp] assms(1)
    by (simp add: fold_invoke_void)
next
  show "compact c this r =
           Some (fold (sp_compact c) chain (fst r), snd r @ map Call_compact chain)"
    unfolding compact_def
    using compact_loop_chain [OF assms(3) refl] assms(2)
    by (simp add: fold_invoke_void)
next
  have "AdjustPointersClosure_do_space c = (\<lambda>s. invoke_void (Call_adjust_pointers s) (sp_adjust_pointers c s))"
    by (intro ext) (simp add: AdjustPointersClosure_do_space_def)
  then show "adjust_pointers c this r =
           (fold (sp_adjust_pointers c) (spaces this) (fst r),
            snd r @ map Call_adjust_pointers (spaces this))"
    by (simp add: adjust_pointers_def space_iterate_def fold_invoke_void)
qed

lemma bump_collab_keeps_links:
  "keeps_links bump_collab (sp_prepare_for_compaction bump_collab s cp)"
  "keeps_links bump_collab (sp_compact bump_collab s)"
  by (simp_all add: keeps_links_def bump_collab_def)

lemma young_chain:
  "compaction_chain (next_compaction_space bump_collab v) (first_compaction_space young_gen) [1, 3]"
proof -
  let ?nxt = "next_compaction_space bump_collab v"
  have one: "?nxt 1 = Some 3" and three: "?nxt 3 = None"
    by (simp_all add: bump_collab_def)
  have "compaction_chain ?nxt (?nxt 3) []"
    unfolding three by (rule chain_null)
  then have "compaction_chain ?nxt (Some 3) [3]"
    by (rule chain_link)
  then have "compaction_chain ?nxt (?nxt 1) [3]"
    unfolding one .
  then have "compaction_chain ?nxt (Some 1) [1, 3]"
    by (rule chain_link)
  then show ?thesis
    by (simp add: young_gen_def)
qed

theorem compaction_passes_visit_witness:
  "spaces young_gen = [1, 2, 3]
   \<and> compaction_chain (next_compaction_space bump_collab roomy_vm)
        (first_compaction_space young_gen) [1, 3]
   \<and> map_option snd (prepare_for_compaction bump_collab young_gen 0x200 (roomy_vm, [])) =
        Some [Call_prepare_for_compaction 1 0x200, Call_prepare_for_compaction 3 0x200]
   \<and> map_option (\<lambda>r. mem (fst r) 0x200) (prepare_for_compaction bump_collab young_gen 0x200 (roomy_vm, [])) =
        Some 3
   \<and> map_option snd (compact bump_collab young_gen (roomy_vm, [])) =
        Some [Call_compact 1, Call_compact 3]
   \<and> snd (adjust_pointers bump_collab young_gen (roomy_vm, [])) =
        [Call_adjust_pointers 1, Call_adjust_pointers 2, Call_adjust_pointers 3]"
proof -
  have keeps: "\<forall>s. keeps_links bump_collab (sp_prepare_for_compaction bump_collab s 0x200)"
    "\<forall>s. keeps_links bump_collab (sp_compact bump_collab s)"
    by (simp_all add: bump_collab_keeps_links)
  have chain: "compaction_chain (next_compaction_space bump_collab (fst (roomy_vm, [])))
      (first_compaction_space young_gen) [1, 3]"
    using young_chain [of roomy_vm] by simp
  have owned: "spaces young_gen = [1, 2, 3]"
    by (simp add: young_gen_def)
  have cursor: "mem (fold (\<lambda>s. sp_prepare_for_compaction bump_collab s 0x200) [1, 3] roomy_vm) 0x200 = 3"
    by (simp add: bump_collab_def)
  from compaction_passes_visit [OF keeps chain] owned cursor chain show ?thesis
    by simp
qed

subsection \<open>The reserved region over the lifetime\<close>

lemma gen_step_reserved:
  assumes "gen_step cfg c op s = Some (Inr s')"
  shows "reserved (gs_this s') = reserved (gs_this s)"
proof (cases op)
  case (Op_ref_processor_init new_ok)
  with assms show ?thesis
    by (auto simp: gen_step_def ref_processor_init_def map_sum_def split: if_splits)
next
  case (Op_promote obj obj_size)
  with assms show ?thesis
    by (auto simp: gen_step_def map_sum_def split: sum.splits)
next
  case (Op_par_promote thread_num obj m word_sz)
  with assms show ?thesis
    by (auto simp: gen_step_def map_sum_def split: sum.splits)
next
  case (Op_prepare_for_compaction cp)
  with assms show ?thesis
    by (auto simp: gen_step_def)
next
  case Op_adjust_pointers
  with assms show ?thesis
    by (auto simp: gen_step_def)
next
  case Op_compact
  with assms show ?thesis
    by (auto simp: gen_step_def)
next
  case (Op_virtual_space vs)
  with assms show ?thesis
    by (auto simp: gen_step_def)
next
  case (Op_concrete avail sps first)
  with assms show ?thesis
    by (auto simp: gen_step_def)
qed

lemma gen_run_reserved:
  "gen_run cfg c ops s = Some (Inr s') \<Longrightarrow> reserved (gs_this s') = reserved (gs_this s)"
proof (induction ops arbitrary: s)
  case Nil
  then show ?case by simp
next
  case (Cons op ops)
  from Cons.prems obtain s1 where step: "gen_step cfg c op s = Some (Inr s1)"
    and rest: "gen_run cfg c ops s1 = Some (Inr s')"
    by (auto split: option.splits sum.splits)
  from Cons.IH [OF rest] gen_step_reserved [OF step] show ?case
    by simp
qed

text \<open>
  Claim C8. The constructor sets \<^verbatim>\<open>_reserved\<close> to the region between the boundaries of the
  initialised virtual space, \<open>[low_boundary, high_boundary)\<close>. In every state that a
  sequence of operations reaches from the constructed generation, \<^verbatim>\<open>_reserved\<close> is that
  region, and \<^verbatim>\<open>max_capacity()\<close> is its size in bytes.
\<close>

theorem reserved_fixed_at_construction:
  assumes "Generation cfg initialize this0 rs initial_size lvl = Inr (g, mangled)"
    and "gen_run cfg c ops \<lparr>gs_this = g, gs_run = r\<rparr> = Some (Inr s')"
  shows "\<exists>vs. initialize rs initial_size = Some vs
           \<and> reserved g = MemRegion (low_boundary vs) (high_boundary vs)
           \<and> reserved (gs_this s') = reserved g
           \<and> max_capacity g = byte_size (reserved g)
           \<and> max_capacity (gs_this s') = byte_size (reserved g)
           \<and> max_capacity (gs_this s') = high_boundary vs - low_boundary vs"
proof -
  from assms(1) obtain vs where vs: "initialize rs initial_size = Some vs"
    and g: "reserved g = MemRegion (low_boundary vs) (high_boundary vs)"
    by (auto simp: Generation_def split: option.splits)
  from gen_run_reserved [OF assms(2)] have fixed: "reserved (gs_this s') = reserved g"
    by simp
  with vs g show ?thesis
    by (simp add: max_capacity_def byte_size_def MemRegion_def)
qed

lemma young_constructed:
  "Generation debug_build reserve_range young_gen (0x100000, 0x200000) 0x40000 0 =
     Inr (young_gen, [MemRegion 0x100000 0x140000])"
  by (simp add: Generation_def reserve_range_def debug_build_def young_gen_def young_vs_def)

lemma young_life_runs:
  "\<exists>s'. gen_run debug_build bump_collab young_life \<lparr>gs_this = young_gen, gs_run = (roomy_vm, [])\<rparr> =
          Some (Inr s')
        \<and> high (virtual_space (gs_this s')) = 0x180000"
proof -
  have chain: "\<And>r. compaction_chain (next_compaction_space bump_collab (fst r))
      (first_compaction_space young_gen) [1, 3]"
    by (rule young_chain)
  have keeps: "\<forall>s. keeps_links bump_collab (sp_prepare_for_compaction bump_collab s 0x200)"
    "\<forall>s. keeps_links bump_collab (sp_compact bump_collab s)"
    by (simp_all add: bump_collab_keeps_links)
  have first: "first_compaction_space (g\<lparr>ref_processor := x\<rparr>) = first_compaction_space g" for g :: generation and x
    by simp
  have prep: "\<exists>r'. prepare_for_compaction bump_collab (young_gen\<lparr>ref_processor := x\<rparr>) 0x200 r = Some r'" for r x
    unfolding prepare_for_compaction_def first
    using prepare_loop_chain [OF chain [of r] refl, of "0x200"] keeps(1) by simp
  have comp: "\<exists>r'. compact bump_collab (young_gen\<lparr>ref_processor := x\<rparr>) r = Some r'" for r x
    unfolding compact_def first
    using compact_loop_chain [OF chain [of r] refl] keeps(2) by simp
  have init: "ref_processor_init debug_build True young_gen =
      Inr (young_gen\<lparr>ref_processor := Some (reserved young_gen)\<rparr>)"
    by (simp add: ref_processor_init_def debug_build_def young_gen_def is_empty_def byte_size_def
        MemRegion_def)
  have promo: "\<exists>res. promote debug_build bump_collab g 0x100000 2 (roomy_vm, []) = Inr res" for g
    by (simp add: promote_def bump_collab_def debug_build_def invoke_def roomy_vm_def NULL_def)
  from promo obtain res where
    res: "promote debug_build bump_collab (young_gen\<lparr>ref_processor := Some (reserved young_gen)\<rparr>)
            0x100000 2 (roomy_vm, []) = Inr res"
    by blast
  from prep obtain r1 where
    r1: "prepare_for_compaction bump_collab (young_gen\<lparr>ref_processor := Some (reserved young_gen)\<rparr>)
           0x200 (snd res) = Some r1"
    by blast
  from comp obtain r2 where
    r2: "compact bump_collab (young_gen\<lparr>ref_processor := Some (reserved young_gen)\<rparr>)
           (adjust_pointers bump_collab (young_gen\<lparr>ref_processor := Some (reserved young_gen)\<rparr>) r1) =
         Some r2"
    by blast
  show ?thesis
    by (simp add: young_life_def gen_step_def init res r1 r2)
qed

theorem reserved_fixed_at_construction_witness:
  "\<exists>s'. Generation debug_build reserve_range young_gen (0x100000, 0x200000) 0x40000 0 =
          Inr (young_gen, [MemRegion 0x100000 0x140000])
        \<and> gen_run debug_build bump_collab young_life \<lparr>gs_this = young_gen, gs_run = (roomy_vm, [])\<rparr> =
            Some (Inr s')
        \<and> reserved (gs_this s') = MemRegion 0x100000 0x200000
        \<and> max_capacity (gs_this s') = 0x100000
        \<and> high (virtual_space young_gen) = 0x140000
        \<and> high (virtual_space (gs_this s')) = 0x180000"
proof -
  from young_life_runs obtain s' where
    run: "gen_run debug_build bump_collab young_life \<lparr>gs_this = young_gen, gs_run = (roomy_vm, [])\<rparr> =
            Some (Inr s')"
    and grown: "high (virtual_space (gs_this s')) = 0x180000"
    by blast
  from reserved_fixed_at_construction [OF young_constructed run]
  have "reserved (gs_this s') = reserved young_gen"
    and "max_capacity (gs_this s') = byte_size (reserved young_gen)"
    by auto
  then have fixed: "reserved (gs_this s') = MemRegion 0x100000 0x200000"
    and cap: "max_capacity (gs_this s') = 0x100000"
    by (simp_all add: young_gen_def byte_size_def MemRegion_def)
  have before: "high (virtual_space young_gen) = 0x140000"
    by (simp add: young_gen_def young_vs_def)
  from young_constructed run fixed cap before grown show ?thesis
    by blast
qed

end
